theory Spec2Isabelle
  imports Main "HOL-Library.AList"
begin

section \<open>Data model of \<^verbatim>\<open>deploy/domain/model.py\<close>\<close>

text \<open>
  Python exceptions are values. \<^verbatim>\<open>ValueError\<close> carries the message the source
  raises it with, since the source tells its failures apart by message only.
  \<open>NotFound\<close> is the spec's name for a repository lookup that misses.
\<close>

datatype error =
    ValueError string
  | AssertionError
  | TypeError
  | UnboundLocalError
  | OverflowError
  | JSONDecodeError
  | JWTError
  | ExpiredSignatureError
  | JWTClaimsError
  | NotFound

text \<open>
  JSON values, as they occur in a service's \<^verbatim>\<open>data\<close>, in a deployment's
  \<^verbatim>\<open>context\<close> and in token payloads. A Python \<^verbatim>\<open>dict\<close> is an association
  list: insertion order is kept, a key occurs once.
\<close>

datatype jval =
    JNone
  | JInt int
  | JStr string
  | JList "jval list"
  | JDict "(string \<times> jval) list"

type_synonym pydict = "(string \<times> jval) list"

text \<open>
  \<^verbatim>\<open>class Step\<close>. Timestamps are integers (a \<^verbatim>\<open>datetime\<close> as a point on the
  clock), \<^verbatim>\<open>None\<close> is \<open>None\<close>. The state is the string the source compares.
\<close>

record step =
  s_id :: "int option"
  s_name :: string
  s_started :: "int option"
  s_finished :: "int option"
  s_state :: string
  s_deployment_id :: "int option"
  s_message :: string

text \<open>\<^verbatim>\<open>Step.__init__\<close> with only \<^verbatim>\<open>name\<close> given: every other field at its default.\<close>

definition Step :: "string \<Rightarrow> step" where
  "Step n = \<lparr>s_id = None, s_name = n, s_started = None, s_finished = None,
     s_state = ''pending'', s_deployment_id = None, s_message = ''''\<rparr>"

text \<open>\<^verbatim>\<open>class DeploymentPydantic\<close>.\<close>

record deployment =
  d_id :: "int option"
  d_service_id :: int
  d_origin :: string
  d_user :: string
  d_started :: "int option"
  d_finished :: "int option"
  d_context :: pydict

section \<open>The step repository\<close>

text \<open>
  The persisted steps, in creation order, and the next primary key the storage hands out.
\<close>

record repository =
  rows :: "step list"
  next_id :: int

text \<open>
  Modelled from the spec: \<^verbatim>\<open>repository.get_steps_by_deployment_id\<close> of the absent
  module \<^verbatim>\<open>deploy/domain/database.py\<close>: "Load all Steps currently persisted for the
  deployment", in creation order.
\<close>

definition get_steps_by_deployment_id :: "repository \<Rightarrow> int \<Rightarrow> step list" where
  "get_steps_by_deployment_id repo i = filter (\<lambda>r. s_deployment_id r = Some i) (rows repo)"

text \<open>
  Modelled from the spec: \<^verbatim>\<open>repository.update_step\<close> of the absent module
  \<^verbatim>\<open>deploy/domain/database.py\<close>: the row with the step's primary key is overwritten
  with the step ("persist"), and the persisted step is returned.
\<close>

definition update_step :: "step \<Rightarrow> repository \<Rightarrow> step \<times> repository" where
  "update_step s repo =
     (s, repo\<lparr>rows := map (\<lambda>r. if s_id r = s_id s then s else r) (rows repo)\<rparr>)"

text \<open>
  Modelled from the spec: \<^verbatim>\<open>repository.add_step\<close> of the absent module
  \<^verbatim>\<open>deploy/domain/database.py\<close>: "create a new Step row", stored last under the next
  primary key, and returned as persisted.
\<close>

definition add_step :: "step \<Rightarrow> repository \<Rightarrow> step \<times> repository" where
  "add_step s repo =
     (let s' = s\<lparr>s_id := Some (next_id repo)\<rparr>
      in (s', repo\<lparr>rows := rows repo @ [s'], next_id := next_id repo + 1\<rparr>))"

section \<open>\<^verbatim>\<open>DeploymentPydantic.process_step\<close>\<close>

text \<open>
  The first half of the body: the search for \<^verbatim>\<open>known_step\<close>, first among the running
  steps, then among the pending ones, and the promotion of \<^verbatim>\<open>pending_steps[0]\<close> in the
  \<^verbatim>\<open>else\<close> branch. It returns \<^verbatim>\<open>known_step\<close> and the repository after the promotion.
\<close>

definition find_known_step :: "step list \<Rightarrow> step \<Rightarrow> repository \<Rightarrow> step option \<times> repository" where
  "find_known_step steps stp repo =
     (let running_steps = filter (\<lambda>s. s_state s = ''running'') steps;
          known_step = List.find (\<lambda>running_step. s_name running_step = s_name stp) running_steps;
          pending_steps = filter (\<lambda>s. s_state s = ''pending'') steps
      in case known_step of
           None \<Rightarrow>
             (List.find (\<lambda>pending_step. s_name pending_step = s_name stp) pending_steps, repo)
         | Some k \<Rightarrow>
             (case pending_steps of
                next_pending_step # _ \<Rightarrow>
                  if s_state stp \<noteq> ''failure''
                  then (Some k, snd (update_step (next_pending_step\<lparr>s_state := ''running''\<rparr>) repo))
                  else (Some k, repo)
              | [] \<Rightarrow> (Some k, repo)))"

text \<open>
  \<^verbatim>\<open>process_step(self, step)\<close> at clock reading \<open>now\<close>. The result is what the call
  returns or raises, paired with the repository it leaves behind.
\<close>

definition process_step ::
  "deployment \<Rightarrow> step \<Rightarrow> int \<Rightarrow> repository \<Rightarrow> (error + step) \<times> repository" where
  "process_step self stp now repo =
     (if d_started self = None then (Inl (ValueError ''deployment has not started yet''), repo)
      else if d_finished self \<noteq> None then (Inl (ValueError ''deployment has already finished''), repo)
      else case d_id self of
        None \<Rightarrow> (Inl AssertionError, repo)
      | Some i \<Rightarrow>
          (let steps = get_steps_by_deployment_id repo i;
               (known_step, repo1) = find_known_step steps stp repo
           in case known_step of
                None \<Rightarrow>
                  (let (r, repo2) = add_step (stp\<lparr>s_finished := Some now, s_deployment_id := Some i\<rparr>) repo1
                   in (Inr r, repo2))
              | Some k \<Rightarrow>
                  (let (r, repo2) = update_step (k\<lparr>s_started := s_started stp, s_finished := Some now,
                                        s_state := s_state stp, s_message := s_message stp\<rparr>) repo1
                   in (Inr r, repo2))))"

text \<open>The two state errors of the spec are the two messages of the source.\<close>

definition DeploymentNotStarted :: error where
  "DeploymentNotStarted = ValueError ''deployment has not started yet''"

definition DeploymentAlreadyFinished :: error where
  "DeploymentAlreadyFinished = ValueError ''deployment has already finished''"

text \<open>
  Steps 3 and 4 of the spec's reconciliation, in its own words: the first running step, in
  creation order, whose name is the report's; else the first pending one. Running matches
  take priority over pending matches.
\<close>

definition spec_known_step :: "step list \<Rightarrow> step \<Rightarrow> step option" where
  "spec_known_step steps stp =
     List.find (\<lambda>s. s_name s = s_name stp)
       (filter (\<lambda>s. s_state s = ''running'') steps @ filter (\<lambda>s. s_state s = ''pending'') steps)"

section \<open>Tokens: \<^verbatim>\<open>deploy/auth.py\<close>\<close>

text \<open>
  \<^verbatim>\<open>settings.secret_key\<close> and \<^verbatim>\<open>settings.token_sign_algorithm\<close> of the absent
  \<^verbatim>\<open>deploy/config.py\<close>, taken as a parameter.
\<close>

record settings =
  secret_key :: string
  token_sign_algorithm :: string

text \<open>
  A \<^verbatim>\<open>datetime\<close> of this section is its microseconds since the epoch, a
  \<^verbatim>\<open>timedelta\<close> its microseconds: the resolution of both types. A \<^verbatim>\<open>datetime\<close>
  lies between year 1 and year 9999; arithmetic that leaves the range raises
  \<^verbatim>\<open>OverflowError\<close>.
\<close>

definition datetime_min :: int where
  "datetime_min = - 62135596800 * 1000000"

definition datetime_max :: int where
  "datetime_max = 253402300799 * 1000000 + 999999"

text \<open>
  \<^verbatim>\<open>timegm(d.utctimetuple())\<close>: the whole seconds of a \<^verbatim>\<open>datetime\<close>, as the library
  \<^verbatim>\<open>jose\<close> takes them both of an \<^verbatim>\<open>exp\<close> it is given and of the clock it reads.
\<close>

definition timegm :: "int \<Rightarrow> int" where
  "timegm d = d div 1000000"

text \<open>
  \<^verbatim>\<open>int(claims[k])\<close> inside the library's \<^verbatim>\<open>try ... except ValueError\<close>, which
  turns a string that is no number into \<^verbatim>\<open>JWTClaimsError\<close>; the \<^verbatim>\<open>TypeError\<close> of
  \<^verbatim>\<open>int\<close> on \<^verbatim>\<open>None\<close>, a list or a dict is not caught. A string is read as a
  signed decimal number; the other spellings Python's \<^verbatim>\<open>int\<close> accepts (blanks around
  the number, underscores between digits, digits of other scripts) are refused here.
\<close>

definition digit :: "char \<Rightarrow> int option" where
  "digit c = (let n = (of_char c :: nat)
              in if 48 \<le> n \<and> n \<le> 57 then Some (int n - 48) else None)"

fun digits :: "string \<Rightarrow> int \<Rightarrow> int option" where
  "digits [] acc = Some acc"
| "digits (c # cs) acc =
     (case digit c of None \<Rightarrow> None | Some d \<Rightarrow> digits cs (10 * acc + d))"

definition int_of_str :: "string \<Rightarrow> int option" where
  "int_of_str s =
     (case s of
        [] \<Rightarrow> None
      | c # cs \<Rightarrow>
          if c = CHR ''-'' then (if cs = [] then None else map_option uminus (digits cs 0))
          else if c = CHR ''+'' then (if cs = [] then None else digits cs 0)
          else digits s 0)"

definition claim_int :: "jval \<Rightarrow> error + int" where
  "claim_int v =
     (case v of
        JInt n \<Rightarrow> Inr n
      | JStr s \<Rightarrow> (case int_of_str s of Some n \<Rightarrow> Inr n | None \<Rightarrow> Inl JWTClaimsError)
      | JNone \<Rightarrow> Inl TypeError
      | JList xs \<Rightarrow> Inl TypeError
      | JDict kv \<Rightarrow> Inl TypeError)"

text \<open>
  The checks \<^verbatim>\<open>jwt.decode\<close> makes on the registered claims with its default options
  and with no audience, issuer, subject or access token passed, as the source calls it.
  Each answers the error it raises, \<open>None\<close> when it passes; \<open>now\<close> is the clock in whole
  seconds. With no audience to compare, any \<^verbatim>\<open>aud\<close> claim is refused, and so is any
  \<^verbatim>\<open>at_hash\<close>; \<^verbatim>\<open>iss\<close> is not looked at.
\<close>

definition validate_iat :: "pydict \<Rightarrow> error option" where
  "validate_iat claims =
     (case map_of claims ''iat'' of
        None \<Rightarrow> None
      | Some v \<Rightarrow> (case claim_int v of Inl e \<Rightarrow> Some e | Inr iat \<Rightarrow> None))"

definition validate_nbf :: "pydict \<Rightarrow> int \<Rightarrow> error option" where
  "validate_nbf claims now =
     (case map_of claims ''nbf'' of
        None \<Rightarrow> None
      | Some v \<Rightarrow>
          (case claim_int v of
             Inl e \<Rightarrow> Some e
           | Inr nbf \<Rightarrow> if nbf > now then Some JWTClaimsError else None))"

definition validate_exp :: "pydict \<Rightarrow> int \<Rightarrow> error option" where
  "validate_exp claims now =
     (case map_of claims ''exp'' of
        None \<Rightarrow> None
      | Some v \<Rightarrow>
          (case claim_int v of
             Inl e \<Rightarrow> Some e
           | Inr exp \<Rightarrow> if exp < now then Some ExpiredSignatureError else None))"

definition validate_aud :: "pydict \<Rightarrow> error option" where
  "validate_aud claims =
     (case map_of claims ''aud'' of None \<Rightarrow> None | Some v \<Rightarrow> Some JWTClaimsError)"

definition validate_sub :: "pydict \<Rightarrow> error option" where
  "validate_sub claims =
     (case map_of claims ''sub'' of
        None \<Rightarrow> None
      | Some (JStr s) \<Rightarrow> None
      | Some other \<Rightarrow> Some JWTClaimsError)"

definition validate_jti :: "pydict \<Rightarrow> error option" where
  "validate_jti claims =
     (case map_of claims ''jti'' of
        None \<Rightarrow> None
      | Some (JStr s) \<Rightarrow> None
      | Some other \<Rightarrow> Some JWTClaimsError)"

definition validate_at_hash :: "pydict \<Rightarrow> error option" where
  "validate_at_hash claims =
     (case map_of claims ''at_hash'' of None \<Rightarrow> None | Some v \<Rightarrow> Some JWTClaimsError)"

text \<open>The checks run in this order; the first that fails raises.\<close>

fun first_error :: "error option list \<Rightarrow> error option" where
  "first_error [] = None"
| "first_error (None # rest) = first_error rest"
| "first_error (Some e # rest) = Some e"

definition validate_claims :: "pydict \<Rightarrow> int \<Rightarrow> error option" where
  "validate_claims claims now =
     first_error [validate_iat claims, validate_nbf claims now, validate_exp claims now,
                  validate_aud claims, validate_sub claims, validate_jti claims,
                  validate_at_hash claims]"

text \<open>
  Modelled from the spec: \<^verbatim>\<open>jwt.encode\<close> and \<^verbatim>\<open>jwt.decode\<close> of the library
  \<^verbatim>\<open>jose\<close>, which the source imports: a token "serializes claims plus an absolute
  expiry", signed "with a process-wide secret and a configured signing algorithm";
  decoding "verifies signature and expiry". The signature is ideal: a token is the claims
  with the key and algorithm that signed them, or a string that is no token. Decoding
  reads the clock, \<open>clock\<close>, and takes its whole seconds.
\<close>

datatype token =
    Signed pydict string string
  | Malformed string

definition jwt_encode :: "pydict \<Rightarrow> string \<Rightarrow> string \<Rightarrow> token" where
  "jwt_encode claims key algorithm = Signed claims key algorithm"

definition jwt_decode :: "token \<Rightarrow> string \<Rightarrow> string list \<Rightarrow> int \<Rightarrow> error + pydict" where
  "jwt_decode tok key algorithms clock =
     (case tok of
        Malformed s \<Rightarrow> Inl JWTError
      | Signed claims k a \<Rightarrow>
          if k \<noteq> key \<or> a \<notin> set algorithms then Inl JWTError
          else (case validate_claims claims (timegm clock) of
                  Some e \<Rightarrow> Inl e
                | None \<Rightarrow> Inr claims))"

text \<open>
  \<^verbatim>\<open>create_access_token(payload, expires_delta)\<close> at clock reading \<open>utcnow\<close>, with
  \<open>None\<close> when the duration is left out. \<^verbatim>\<open>if expires_delta:\<close> is false for
  \<^verbatim>\<open>None\<close> and for the zero duration. The sum of clock and duration raises
  \<^verbatim>\<open>OverflowError\<close> outside the range of \<^verbatim>\<open>datetime\<close>.
  \<^verbatim>\<open>to_encode.update({"exp": expire})\<close> overwrites an \<^verbatim>\<open>exp\<close> the payload brings,
  and \<^verbatim>\<open>jwt.encode\<close> stores the \<^verbatim>\<open>datetime\<close> under \<^verbatim>\<open>exp\<close> as its whole seconds.
\<close>

definition create_access_token ::
  "settings \<Rightarrow> pydict \<Rightarrow> int option \<Rightarrow> int \<Rightarrow> error + token" where
  "create_access_token cfg payload expires_delta utcnow =
     (let to_encode = payload;
          expire = (case expires_delta of
                      Some delta \<Rightarrow>
                        if delta \<noteq> 0 then utcnow + delta else utcnow + 15 * 60 * 1000000
                    | None \<Rightarrow> utcnow + 15 * 60 * 1000000)
      in if expire < datetime_min \<or> datetime_max < expire then Inl OverflowError
         else Inr (jwt_encode (AList.update ''exp'' (JInt (timegm expire)) to_encode)
                     (secret_key cfg) (token_sign_algorithm cfg)))"

text \<open>\<^verbatim>\<open>token_to_payload(token)\<close> at clock reading \<open>now\<close>.\<close>

definition token_to_payload :: "settings \<Rightarrow> token \<Rightarrow> int \<Rightarrow> error + pydict" where
  "token_to_payload cfg tok now =
     jwt_decode tok (secret_key cfg) [token_sign_algorithm cfg] now"

text \<open>
  The unit of work (\<^verbatim>\<open>deploy/service_layer/unit_of_work.py\<close>) is absent. Each of the
  three functions below takes its one repository call as a parameter: what
  \<^verbatim>\<open>[user] = uow.users.get(username)\<close> binds or raises. Beside its result, a function
  returns the repository calls it made, in order.
\<close>

datatype lookup =
    UsersGet "jval option"
  | ServicesGetByName jval
  | DeploymentsGet jval

text \<open>\<^verbatim>\<open>user_from_token(token, uow)\<close>. \<^verbatim>\<open>payload.get("user")\<close> may be \<^verbatim>\<open>None\<close>.\<close>

definition user_from_token ::
  "settings \<Rightarrow> (jval option \<Rightarrow> error + 'u) \<Rightarrow> token \<Rightarrow> int \<Rightarrow> (error + 'u) \<times> lookup list" where
  "user_from_token cfg users_get tok now =
     (case token_to_payload cfg tok now of
        Inl e \<Rightarrow> (Inl e, [])
      | Inr payload \<Rightarrow>
          if map_of payload ''type'' \<noteq> Some (JStr ''user'')
          then (Inl (ValueError ''not an access token''), [])
          else (let username = map_of payload ''user''
                in (users_get username, [UsersGet username])))"

text \<open>\<^verbatim>\<open>service_from_token(token, uow)\<close>.\<close>

definition service_from_token ::
  "settings \<Rightarrow> (jval \<Rightarrow> error + 's) \<Rightarrow> token \<Rightarrow> int \<Rightarrow> (error + 's) \<times> lookup list" where
  "service_from_token cfg services_get_by_name tok now =
     (case token_to_payload cfg tok now of
        Inl e \<Rightarrow> (Inl e, [])
      | Inr payload \<Rightarrow>
          if map_of payload ''type'' \<noteq> Some (JStr ''service'')
          then (Inl (ValueError ''not a service token''), [])
          else (case map_of payload ''service'' of
                  None \<Rightarrow> (Inl (ValueError ''no service name''), [])
                | Some JNone \<Rightarrow> (Inl (ValueError ''no service name''), [])
                | Some servicename \<Rightarrow>
                    (services_get_by_name servicename, [ServicesGetByName servicename])))"

text \<open>\<^verbatim>\<open>deployment_from_token(token, uow)\<close>.\<close>

definition deployment_from_token ::
  "settings \<Rightarrow> (jval \<Rightarrow> error + 'd) \<Rightarrow> token \<Rightarrow> int \<Rightarrow> (error + 'd) \<times> lookup list" where
  "deployment_from_token cfg deployments_get tok now =
     (case token_to_payload cfg tok now of
        Inl e \<Rightarrow> (Inl e, [])
      | Inr payload \<Rightarrow>
          if map_of payload ''type'' \<noteq> Some (JStr ''deployment'')
          then (Inl (ValueError ''not a deployment token''), [])
          else (case map_of payload ''deployment'' of
                  None \<Rightarrow> (Inl (ValueError ''no deployment id''), [])
                | Some JNone \<Rightarrow> (Inl (ValueError ''no deployment id''), [])
                | Some deployment_id \<Rightarrow>
                    (deployments_get deployment_id, [DeploymentsGet deployment_id])))"

text \<open>
  The spec's two kinds of token failure: \<open>InvalidToken\<close> is what decoding raises,
  \<open>WrongTokenType\<close> is the \<^verbatim>\<open>ValueError\<close> of the type check.
\<close>

definition InvalidToken :: "error \<Rightarrow> bool" where
  "InvalidToken e = (e = JWTError \<or> e = ExpiredSignatureError \<or> e = JWTClaimsError)"

definition WrongTokenType :: "error \<Rightarrow> bool" where
  "WrongTokenType e =
     (e = ValueError ''not an access token'' \<or> e = ValueError ''not a service token'' \<or>
      e = ValueError ''not a deployment token'')"

text \<open>
  The claims a token is issued for, in the spec's words "valid claims" with a type: a
  dict (each key once) whose \<^verbatim>\<open>type\<close> is a string and which uses none of the
  registered names the library checks on its own. The spec's three shapes, a type with a
  \<^verbatim>\<open>user\<close>, a \<^verbatim>\<open>service\<close> or a \<^verbatim>\<open>deployment\<close>, are of this kind.
\<close>

definition valid_claims :: "pydict \<Rightarrow> bool" where
  "valid_claims claims =
     (distinct (map fst claims) \<and>
      (case map_of claims ''type'' of Some (JStr t) \<Rightarrow> True | other \<Rightarrow> False) \<and>
      set (map fst claims) \<inter> {''iat'', ''nbf'', ''aud'', ''sub'', ''jti'', ''at_hash''} = {})"

section \<open>\<^verbatim>\<open>sync_services\<close>\<close>

text \<open>
  \<^verbatim>\<open>class Service\<close>. The type \<open>'d\<close> of \<^verbatim>\<open>data\<close> is any type whose equality is the
  value equality Python's \<^verbatim>\<open>!=\<close> tests on the dicts.
\<close>

record 'd service =
  svc_id :: "int option"
  svc_name :: string
  svc_data :: "'d"

text \<open>
  The function assigns to \<^verbatim>\<open>target_service.data\<close>: it mutates objects of the target
  list and appends those very objects to \<^verbatim>\<open>updated_services\<close>. The target objects are
  therefore kept in a list addressed by position, and an entry of \<^verbatim>\<open>updated_services\<close>
  is a source service or a reference to a target object.
\<close>

datatype 'd entry =
    Source "'d service"
  | Target nat

text \<open>
  \<^verbatim>\<open>{service.name: service for service in target_services}\<close>: of two targets of one
  name the later one stays in the dict.
\<close>

definition target_name_lookup :: "'d service list \<Rightarrow> string \<Rightarrow> nat option" where
  "target_name_lookup target_services =
     map_of (rev (zip (map svc_name target_services) [0..<length target_services]))"

text \<open>The first loop, over the source services, with the target objects as they stand.\<close>

fun sync_loop ::
  "(string \<Rightarrow> nat option) \<Rightarrow> 'd service list \<Rightarrow> 'd service list \<Rightarrow> 'd entry list
     \<Rightarrow> 'd service list \<times> 'd entry list" where
  "sync_loop lookup [] targets updated_services = (targets, updated_services)"
| "sync_loop lookup (service # rest) targets updated_services =
     (case lookup (svc_name service) of
        Some i \<Rightarrow>
          if svc_data (targets ! i) \<noteq> svc_data service
          then sync_loop lookup rest
                 (targets[i := (targets ! i)\<lparr>svc_data := svc_data service\<rparr>])
                 (updated_services @ [Target i])
          else sync_loop lookup rest targets updated_services
      | None \<Rightarrow> sync_loop lookup rest targets (updated_services @ [Source service]))"

text \<open>
  The assignment \<^verbatim>\<open>target_service.data = service.data\<close> of the loop body, applied
  to the target object the lookup finds for a source service. Where the data are already
  equal the source skips it, and it would change nothing.
\<close>

definition touch :: "(string \<Rightarrow> nat option) \<Rightarrow> 'd service \<Rightarrow> 'd service list \<Rightarrow> 'd service list" where
  "touch lookup s ts =
     (case lookup (svc_name s) of
        Some i \<Rightarrow> ts[i := (ts ! i)\<lparr>svc_data := svc_data s\<rparr>]
      | None \<Rightarrow> ts)"

text \<open>
  What one source service contributes to \<^verbatim>\<open>updated_services\<close>, read against the
  target objects \<open>ts\<close>: itself, the target with its data overwritten, or nothing.
\<close>

definition change :: "(string \<Rightarrow> nat option) \<Rightarrow> 'd service list \<Rightarrow> 'd service \<Rightarrow> 'd service list" where
  "change lookup ts s =
     (case lookup (svc_name s) of
        None \<Rightarrow> [s]
      | Some i \<Rightarrow> if svc_data (ts ! i) \<noteq> svc_data s then [(ts ! i)\<lparr>svc_data := svc_data s\<rparr>] else [])"

text \<open>What the caller reads through an entry once the function has returned.\<close>

fun deref :: "'d service list \<Rightarrow> 'd entry \<Rightarrow> 'd service" where
  "deref targets (Source s) = s"
| "deref targets (Target i) = targets ! i"

text \<open>
  \<^verbatim>\<open>sync_services(source_services, target_services)\<close>. The second loop reads the target
  objects after the first has run.
\<close>

definition sync_services ::
  "'d service list \<Rightarrow> 'd service list \<Rightarrow> 'd service list \<times> 'd service list" where
  "sync_services source_services target_services =
     (let (targets, updated_services) =
            sync_loop (target_name_lookup target_services) source_services target_services [];
          source_name_lookup = set (map svc_name source_services);
          deleted_services = filter (\<lambda>service. svc_name service \<notin> source_name_lookup) targets
      in (map (deref targets) updated_services, deleted_services))"

text \<open>
  The spec's reconciliation, in its own words: a source service absent by name from the
  target is an addition; one present with differing data is an update that keeps the
  target's id and takes the source's data; a target absent by name from the source is a
  deletion.
\<close>

definition spec_updated :: "'d service list \<Rightarrow> 'd service list \<Rightarrow> 'd service list" where
  "spec_updated source target =
     concat (map (\<lambda>s. case List.find (\<lambda>t. svc_name t = svc_name s) target of
                         None \<Rightarrow> [s]
                       | Some t \<Rightarrow> if svc_data t \<noteq> svc_data s then [t\<lparr>svc_data := svc_data s\<rparr>] else [])
                 source)"

definition spec_deleted :: "'d service list \<Rightarrow> 'd service list \<Rightarrow> 'd service list" where
  "spec_deleted source target =
     filter (\<lambda>t. svc_name t \<notin> set (map svc_name source)) target"

section \<open>The execution pipeline: \<^verbatim>\<open>app/tasks.py\<close>\<close>

text \<open>
  What \<^verbatim>\<open>client.post\<close> meets: a connection failure, or a response with its status code
  and its body as JSON (\<open>None\<close> when the body is no JSON, so that \<^verbatim>\<open>r.json()\<close>
  raises). The network is a parameter: the outcome of the n-th POST the process sends.
\<close>

record response =
  r_status_code :: int
  r_json :: "jval option"

datatype post_result =
    ConnectError
  | Response response

type_synonym network = "nat \<Rightarrow> post_result"

text \<open>
  What the process has done so far: the POSTs it sent, the \<^verbatim>\<open>asyncio.sleep(3)\<close> calls
  it made, and the events that reached the ingestion URL, in order.
\<close>

record delivery =
  posts :: nat
  sleeps :: nat
  delivered :: "jval list"

text \<open>
  The loop \<^verbatim>\<open>for attempt in range(3)\<close> of \<^verbatim>\<open>process_deploy_event\<close>, over the values
  of \<^verbatim>\<open>attempt\<close> still to come. It returns the binding of the local \<^verbatim>\<open>r\<close> after the
  loop: \<open>None\<close> when no assignment to \<^verbatim>\<open>r\<close> was reached.
\<close>

fun post_attempts :: "network \<Rightarrow> jval \<Rightarrow> nat list \<Rightarrow> delivery \<Rightarrow> response option \<times> delivery" where
  "post_attempts net event [] d = (None, d)"
| "post_attempts net event (attempt # rest) d =
     (case net (posts d) of
        Response r \<Rightarrow> (Some r, d\<lparr>posts := posts d + 1, delivered := delivered d @ [event]\<rparr>)
      | ConnectError \<Rightarrow>
          post_attempts net event rest (d\<lparr>posts := posts d + 1, sleeps := sleeps d + 1\<rparr>))"

text \<open>
  \<^verbatim>\<open>DeployTask.process_deploy_event(event)\<close>. After the loop the source reads
  \<^verbatim>\<open>r.status_code\<close> and \<^verbatim>\<open>r.json()\<close>: reading an unbound local raises
  \<^verbatim>\<open>UnboundLocalError\<close>.
\<close>

definition process_deploy_event :: "network \<Rightarrow> jval \<Rightarrow> delivery \<Rightarrow> (error + unit) \<times> delivery" where
  "process_deploy_event net event d =
     (let (r, d') = post_attempts net event [0, 1, 2] d
      in case r of
           None \<Rightarrow> (Inl UnboundLocalError, d')
         | Some resp \<Rightarrow>
             (case r_json resp of
                None \<Rightarrow> (Inl JSONDecodeError, d')
              | Some body \<Rightarrow> (Inr (), d')))"

text \<open>
  The loop of \<^verbatim>\<open>DeployTask.run_deploy\<close> over the lines the child process writes,
  already decoded; the end of the list, like an empty read, is the end of the stream.
  \<^verbatim>\<open>json.loads\<close> is a parameter, \<open>None\<close> where it raises \<^verbatim>\<open>JSONDecodeError\<close>. The
  \<^verbatim>\<open>except\<close> clause catches that error only, from \<^verbatim>\<open>json.loads\<close> and from
  \<^verbatim>\<open>process_deploy_event\<close> alike; any other error leaves the loop.
\<close>

fun run_deploy ::
  "(string \<Rightarrow> jval option) \<Rightarrow> network \<Rightarrow> string list \<Rightarrow> delivery \<Rightarrow> (error + unit) \<times> delivery" where
  "run_deploy json_loads net [] d = (Inr (), d)"
| "run_deploy json_loads net (decoded # lines) d =
     (if length decoded = 0 then (Inr (), d)
      else case json_loads decoded of
             None \<Rightarrow> run_deploy json_loads net lines d
           | Some message \<Rightarrow>
               (case process_deploy_event net message d of
                  (Inr u, d') \<Rightarrow> run_deploy json_loads net lines d'
                | (Inl e, d') \<Rightarrow>
                    if e = JSONDecodeError then run_deploy json_loads net lines d'
                    else (Inl e, d')))"

section \<open>The steps to do: \<^verbatim>\<open>deploy/views.py\<close> and \<^verbatim>\<open>ServicePydantic.get_steps\<close>\<close>

text \<open>
  The two repository reads both functions mk, of the absent unit of work and repository,
  taken as parameters: the id of the service's last successful deployment, and the steps
  recorded for a deployment, in order.
\<close>

record unit_of_work =
  get_last_successful_deployment_id :: "int \<Rightarrow> int option"
  get_steps_from_deployment :: "int \<Rightarrow> step list"

text \<open>\<^verbatim>\<open>get_steps_from_last_deployment(service, uow)\<close>.\<close>

definition get_steps_from_last_deployment :: "pydict service \<Rightarrow> unit_of_work \<Rightarrow> step list" where
  "get_steps_from_last_deployment service uow =
     (case svc_id service of
        None \<Rightarrow> []
      | Some sid \<Rightarrow>
          (case get_last_successful_deployment_id uow sid of
             None \<Rightarrow> []
           | Some last_successful_deployment_id \<Rightarrow>
               get_steps_from_deployment uow last_successful_deployment_id))"

text \<open>
  \<^verbatim>\<open>Step(**step)\<close> for a dict of the configuration. A keyword \<^verbatim>\<open>Step.__init__\<close> does
  not take, or a missing \<^verbatim>\<open>name\<close>, is a \<^verbatim>\<open>TypeError\<close>. Python would keep a value of
  any JSON type in any field; the typed record has no place for a value of another type
  than the field's, and the model reports \<^verbatim>\<open>TypeError\<close> there too.
\<close>

definition kw_str :: "pydict \<Rightarrow> string \<Rightarrow> string \<Rightarrow> string option" where
  "kw_str kw k dflt =
     (case map_of kw k of None \<Rightarrow> Some dflt | Some (JStr s) \<Rightarrow> Some s | Some other \<Rightarrow> None)"

definition kw_int :: "pydict \<Rightarrow> string \<Rightarrow> int option option" where
  "kw_int kw k =
     (case map_of kw k of
        None \<Rightarrow> Some None | Some JNone \<Rightarrow> Some None | Some (JInt n) \<Rightarrow> Some (Some n)
      | Some other \<Rightarrow> None)"

definition Step_kwargs :: "pydict \<Rightarrow> error + step" where
  "Step_kwargs kw =
     (if \<not> set (map fst kw) \<subseteq>
           {''id'', ''name'', ''started'', ''finished'', ''state'', ''message'', ''deployment_id''}
      then Inl TypeError
      else case map_of kw ''name'' of
        None \<Rightarrow> Inl TypeError
      | Some (JStr n) \<Rightarrow>
          (case (kw_int kw ''id'', kw_int kw ''started'', kw_int kw ''finished'',
                 kw_str kw ''state'' ''pending'', kw_int kw ''deployment_id'',
                 kw_str kw ''message'' '''') of
             (Some i, Some st, Some fi, Some sta, Some dep, Some msg) \<Rightarrow>
               Inr \<lparr>s_id = i, s_name = n, s_started = st, s_finished = fi, s_state = sta,
                    s_deployment_id = dep, s_message = msg\<rparr>
           | other \<Rightarrow> Inl TypeError)
      | Some other \<Rightarrow> Inl TypeError)"

text \<open>
  The comprehension \<^verbatim>\<open>[mk(**step) for step in ...]\<close> over a JSON list: the first
  element that is no dict, or that \<open>mk\<close> refuses, raises.
\<close>

fun build_steps :: "(pydict \<Rightarrow> error + step) \<Rightarrow> jval list \<Rightarrow> error + step list" where
  "build_steps mk [] = Inr []"
| "build_steps mk (x # xs) =
     (case x of
        JDict kw \<Rightarrow>
          (case mk kw of
             Inl e \<Rightarrow> Inl e
           | Inr s \<Rightarrow> (case build_steps mk xs of Inl e \<Rightarrow> Inl e | Inr ss \<Rightarrow> Inr (s # ss)))
      | other \<Rightarrow> Inl TypeError)"

text \<open>
  \<^verbatim>\<open>[mk(**step) for step in data.get("steps", [])]\<close>. An empty dict or string under
  \<^verbatim>\<open>steps\<close> iterates like the empty list; any other value that is no list raises.
\<close>

definition config_steps :: "(pydict \<Rightarrow> error + step) \<Rightarrow> pydict \<Rightarrow> error + step list" where
  "config_steps mk data =
     (case map_of data ''steps'' of
        None \<Rightarrow> Inr []
      | Some (JList xs) \<Rightarrow> build_steps mk xs
      | Some (JDict []) \<Rightarrow> Inr []
      | Some (JStr []) \<Rightarrow> Inr []
      | Some other \<Rightarrow> Inl TypeError)"

text \<open>
  \<^verbatim>\<open>get_steps_to_do_from_service(service, uow)\<close>, with \<open>None\<close> for the default
  \<^verbatim>\<open>uow=None\<close>.
\<close>

definition get_steps_to_do_from_service ::
  "pydict service \<Rightarrow> unit_of_work option \<Rightarrow> error + step list" where
  "get_steps_to_do_from_service service uow =
     (let from_last = (case uow of None \<Rightarrow> [] | Some u \<Rightarrow> get_steps_from_last_deployment service u)
      in if from_last \<noteq> [] then Inr from_last
         else case config_steps Step_kwargs (svc_data service) of
                Inl e \<Rightarrow> Inl e
              | Inr steps \<Rightarrow>
                  if length steps = 0 then Inr [Step ''Unknown step''] else Inr steps)"

text \<open>
  \<^verbatim>\<open>ServicePydantic.get_steps(self)\<close>. A \<^verbatim>\<open>StepBase\<close> is a step without id and
  deployment; \<^verbatim>\<open>StepBase(name=...)\<close> has every other field at its default, as
  \<open>Step\<close> has. \<^verbatim>\<open>StepBase(**step)\<close> is validation by the library pydantic, a
  parameter here.
\<close>

definition get_steps ::
  "(pydict \<Rightarrow> error + step) \<Rightarrow> unit_of_work \<Rightarrow> pydict service \<Rightarrow> error + step list" where
  "get_steps StepBase_kwargs repository self =
     (case svc_id self of
        None \<Rightarrow> Inl AssertionError
      | Some sid \<Rightarrow>
          (case (case get_last_successful_deployment_id repository sid of
                   Some last_successful_deployment_id \<Rightarrow>
                     Inr (map (\<lambda>past. Step (s_name past))
                            (get_steps_from_deployment repository last_successful_deployment_id))
                 | None \<Rightarrow> config_steps StepBase_kwargs (svc_data self)) of
             Inl e \<Rightarrow> Inl e
           | Inr steps \<Rightarrow>
               if length steps = 0 then Inr [Step ''Unknown step''] else Inr steps))"

section \<open>Properties of \<^verbatim>\<open>process_step\<close>\<close>

subsection \<open>How the search and the two branches compute\<close>

lemma find_append_cases:
  "List.find P (xs @ ys) = (case List.find P xs of None \<Rightarrow> List.find P ys | Some x \<Rightarrow> Some x)"
  by (induction xs) auto

lemma fst_find_known_step:
  "fst (find_known_step steps stp repo) = spec_known_step steps stp"
  by (simp add: find_known_step_def spec_known_step_def find_append_cases Let_def
      split: option.splits list.splits)

lemma snd_find_known_step_unchanged:
  assumes "s_state stp = ''failure'' \<or>
           (\<forall>s\<in>set steps. s_state s = ''running'' \<longrightarrow> s_name s \<noteq> s_name stp)"
  shows "snd (find_known_step steps stp repo) = repo"
  using assms
proof
  assume "s_state stp = ''failure''"
  then show ?thesis
    by (simp add: find_known_step_def Let_def split: option.splits list.splits)
next
  assume "\<forall>s\<in>set steps. s_state s = ''running'' \<longrightarrow> s_name s \<noteq> s_name stp"
  then have "List.find (\<lambda>r. s_name r = s_name stp) (filter (\<lambda>s. s_state s = ''running'') steps) = None"
    by (auto simp: find_None_iff)
  then show ?thesis
    by (simp add: find_known_step_def Let_def)
qed

lemma process_step_Some:
  assumes "d_started self \<noteq> None" "d_finished self = None" "d_id self = Some d"
    and "spec_known_step (get_steps_by_deployment_id repo d) stp = Some k"
  shows "process_step self stp now repo =
           (Inr (k\<lparr>s_started := s_started stp, s_finished := Some now,
                   s_state := s_state stp, s_message := s_message stp\<rparr>),
            snd (update_step (k\<lparr>s_started := s_started stp, s_finished := Some now,
                   s_state := s_state stp, s_message := s_message stp\<rparr>)
                 (snd (find_known_step (get_steps_by_deployment_id repo d) stp repo))))"
proof -
  let ?steps = "get_steps_by_deployment_id repo d"
  obtain ks r1 where e: "find_known_step ?steps stp repo = (ks, r1)"
    by (cases "find_known_step ?steps stp repo")
  then have "ks = Some k" using fst_find_known_step [of ?steps stp repo] assms(4) by simp
  with e assms(1-3) show ?thesis
    by (simp add: process_step_def update_step_def Let_def)
qed

lemma process_step_None:
  assumes "d_started self \<noteq> None" "d_finished self = None" "d_id self = Some d"
    and "spec_known_step (get_steps_by_deployment_id repo d) stp = None"
  shows "process_step self stp now repo =
           (Inr (stp\<lparr>s_id := Some (next_id repo), s_finished := Some now, s_deployment_id := Some d\<rparr>),
            repo\<lparr>rows := rows repo @ [stp\<lparr>s_id := Some (next_id repo), s_finished := Some now, s_deployment_id := Some d\<rparr>],
                 next_id := next_id repo + 1\<rparr>)"
proof -
  let ?steps = "get_steps_by_deployment_id repo d"
  have "List.find (\<lambda>r. s_name r = s_name stp) (filter (\<lambda>s. s_state s = ''running'') ?steps) = None"
    using assms(4) by (simp add: spec_known_step_def find_append_cases split: option.splits)
  then have r: "snd (find_known_step ?steps stp repo) = repo"
    by (simp add: find_known_step_def Let_def)
  obtain ks r1 where e: "find_known_step ?steps stp repo = (ks, r1)"
    by (cases "find_known_step ?steps stp repo")
  then have "ks = None" "r1 = repo"
    using fst_find_known_step [of ?steps stp repo] assms(4) r by simp_all
  with e assms(1-3) show ?thesis
    by (auto simp: process_step_def add_step_def Let_def)
qed

lemma filter_deployment_update:
  assumes "\<forall>r\<in>set xs. s_id r = s_id s \<longrightarrow> s_deployment_id r = s_deployment_id s"
  shows "filter (\<lambda>r. s_deployment_id r = Some d) (map (\<lambda>r. if s_id r = s_id s then s else r) xs) =
         map (\<lambda>r. if s_id r = s_id s then s else r) (filter (\<lambda>r. s_deployment_id r = Some d) xs)"
  using assms by (induction xs) auto

lemma same_id_same_row:
  assumes "distinct (map s_id xs)" "x \<in> set xs" "y \<in> set xs" "s_id x = s_id y"
  shows "x = y"
  using assms by (meson distinct_map inj_onD)

lemma find_known_step_promotes:
  assumes "List.find (\<lambda>r. s_name r = s_name stp) (filter (\<lambda>s. s_state s = ''running'') steps) = Some k"
    and "filter (\<lambda>s. s_state s = ''pending'') steps = p # ps"
    and "s_state stp \<noteq> ''failure''"
  shows "find_known_step steps stp repo = (Some k, snd (update_step (p\<lparr>s_state := ''running''\<rparr>) repo))"
  using assms by (simp add: find_known_step_def Let_def)

lemma find_Some_mem: "List.find P xs = Some x \<Longrightarrow> x \<in> set xs \<and> P x"
  by (induction xs) (auto split: if_splits)

lemma spec_known_step_mem:
  assumes "spec_known_step steps stp = Some k"
  shows "k \<in> set steps \<and> s_name k = s_name stp \<and> (s_state k = ''running'' \<or> s_state k = ''pending'')"
  using find_Some_mem [OF assms [unfolded spec_known_step_def]] by auto

lemma snd_find_known_step_cases:
  "snd (find_known_step steps stp repo) = repo \<or>
   (\<exists>k p ps. List.find (\<lambda>r. s_name r = s_name stp) (filter (\<lambda>s. s_state s = ''running'') steps) = Some k \<and>
      filter (\<lambda>s. s_state s = ''pending'') steps = p # ps \<and>
      snd (find_known_step steps stp repo) = snd (update_step (p\<lparr>s_state := ''running''\<rparr>) repo))"
  by (auto simp: find_known_step_def Let_def split: option.splits list.splits)

subsection \<open>The claims\<close>

text \<open>
  C4: on a deployment that keeps the data model's invariant (\<^verbatim>\<open>finished\<close> is never
  set before \<^verbatim>\<open>started\<close>), \<^verbatim>\<open>process_step\<close> fails with DeploymentNotStarted whenever
  \<^verbatim>\<open>started\<close> is null and with DeploymentAlreadyFinished whenever \<^verbatim>\<open>finished\<close> is
  not null, whatever the incoming step is; in both cases the repository is left as it was:
  no step is created or updated.
\<close>

theorem process_step_state_errors:
  assumes "d_finished self \<noteq> None \<longrightarrow> d_started self \<noteq> None"
  shows "(d_started self = None \<longrightarrow>
            process_step self stp now repo = (Inl DeploymentNotStarted, repo)) \<and>
         (d_finished self \<noteq> None \<longrightarrow>
            process_step self stp now repo = (Inl DeploymentAlreadyFinished, repo))"
  using assms
  by (cases "d_started self"; cases "d_finished self")
    (simp_all add: process_step_def DeploymentNotStarted_def DeploymentAlreadyFinished_def)

theorem process_step_state_errors_witness:
  "process_step
     \<lparr>d_id = Some 1, d_service_id = 1, d_origin = ''gh'', d_user = ''u'',
        d_started = None, d_finished = None, d_context = []\<rparr>
     (Step ''A'') 7
     \<lparr>rows = [(Step ''A'')\<lparr>s_id := Some 10, s_state := ''running'', s_deployment_id := Some 1\<rparr>],
        next_id = 11\<rparr> =
     (Inl DeploymentNotStarted,
      \<lparr>rows = [(Step ''A'')\<lparr>s_id := Some 10, s_state := ''running'', s_deployment_id := Some 1\<rparr>],
         next_id = 11\<rparr>) \<and>
   process_step
     \<lparr>d_id = Some 1, d_service_id = 1, d_origin = ''gh'', d_user = ''u'',
        d_started = Some 3, d_finished = Some 5, d_context = []\<rparr>
     (Step ''A'') 7
     \<lparr>rows = [(Step ''A'')\<lparr>s_id := Some 10, s_state := ''running'', s_deployment_id := Some 1\<rparr>],
        next_id = 11\<rparr> =
     (Inl DeploymentAlreadyFinished,
      \<lparr>rows = [(Step ''A'')\<lparr>s_id := Some 10, s_state := ''running'', s_deployment_id := Some 1\<rparr>],
         next_id = 11\<rparr>)"
proof -
  let ?repo = "\<lparr>rows = [(Step ''A'')\<lparr>s_id := Some 10, s_state := ''running'', s_deployment_id := Some 1\<rparr>],
        next_id = 11\<rparr>"
  let ?unstarted = "\<lparr>d_id = Some 1, d_service_id = 1, d_origin = ''gh'', d_user = ''u'',
        d_started = None, d_finished = None, d_context = []\<rparr>"
  let ?finished = "\<lparr>d_id = Some 1, d_service_id = 1, d_origin = ''gh'', d_user = ''u'',
        d_started = Some 3, d_finished = Some 5, d_context = []\<rparr>"
  have u: "d_finished ?unstarted \<noteq> None \<longrightarrow> d_started ?unstarted \<noteq> None"
    and f: "d_finished ?finished \<noteq> None \<longrightarrow> d_started ?finished \<noteq> None"
    by simp_all
  show ?thesis
    using process_step_state_errors [OF u, where stp = "Step ''A''" and now = 7 and repo = ?repo]
      process_step_state_errors [OF f, where stp = "Step ''A''" and now = 7 and repo = ?repo]
    by simp
qed

text \<open>
  C1: on a started, unfinished deployment whose persisted steps are [A:running, B:pending,
  C:pending], a report with A's name and state success returns A updated (state success,
  finished = now, started and message from the report), leaves the deployment's steps as
  [A updated, B running, C unchanged], and touches no step of another deployment.
\<close>

theorem process_step_advances:
  assumes ok: "d_started self \<noteq> None" "d_finished self = None" "d_id self = Some d"
    and dist: "distinct (map s_id (rows repo))"
    and steps: "get_steps_by_deployment_id repo d = [A, B, C]"
    and st: "s_state A = ''running''" "s_state B = ''pending''" "s_state C = ''pending''"
    and rep: "s_name stp = s_name A" "s_state stp = ''success''"
  shows "fst (process_step self stp now repo) =
           Inr (A\<lparr>s_started := s_started stp, s_finished := Some now,
                  s_state := ''success'', s_message := s_message stp\<rparr>) \<and>
         get_steps_by_deployment_id (snd (process_step self stp now repo)) d =
           [A\<lparr>s_started := s_started stp, s_finished := Some now,
              s_state := ''success'', s_message := s_message stp\<rparr>,
            B\<lparr>s_state := ''running''\<rparr>, C] \<and>
         (\<forall>d'. d' \<noteq> d \<longrightarrow>
            get_steps_by_deployment_id (snd (process_step self stp now repo)) d' =
            get_steps_by_deployment_id repo d') \<and>
         next_id (snd (process_step self stp now repo)) = next_id repo"
proof -
  let ?A = "A\<lparr>s_started := s_started stp, s_finished := Some now,
               s_state := ''success'', s_message := s_message stp\<rparr>"
  let ?B = "B\<lparr>s_state := ''running''\<rparr>"
  let ?uB = "\<lambda>r. if s_id r = s_id B then ?B else r"
  let ?uA = "\<lambda>r. if s_id r = s_id A then ?A else r"
  have mem: "A \<in> set (rows repo)" "B \<in> set (rows repo)" "C \<in> set (rows repo)"
    and dep: "s_deployment_id A = Some d" "s_deployment_id B = Some d" "s_deployment_id C = Some d"
  proof -
    have "set [A, B, C] = {r \<in> set (rows repo). s_deployment_id r = Some d}"
      using arg_cong [OF steps, of set] by (simp add: get_steps_by_deployment_id_def)
    then have "\<forall>r\<in>{A, B, C}. r \<in> set (rows repo) \<and> s_deployment_id r = Some d"
      by auto
    then show "A \<in> set (rows repo)" "B \<in> set (rows repo)" "C \<in> set (rows repo)"
      "s_deployment_id A = Some d" "s_deployment_id B = Some d" "s_deployment_id C = Some d"
      by simp_all
  qed
  have "distinct (map s_id (filter (\<lambda>r. s_deployment_id r = Some d) (rows repo)))"
    using dist by (rule distinct_map_filter)
  then have ids: "s_id A \<noteq> s_id B" "s_id A \<noteq> s_id C" "s_id B \<noteq> s_id C"
    using steps by (auto simp: get_steps_by_deployment_id_def)
  have fk: "find_known_step [A, B, C] stp repo = (Some A, snd (update_step ?B repo))"
    using st rep by (intro find_known_step_promotes) auto
  have ps: "process_step self stp now repo =
              (Inr ?A, repo\<lparr>rows := map ?uA (map ?uB (rows repo))\<rparr>)"
    using ok steps fk rep by (simp add: process_step_def update_step_def Let_def)
  have inB: "\<forall>r\<in>set (rows repo). s_id r = s_id ?B \<longrightarrow> s_deployment_id r = s_deployment_id ?B"
    using same_id_same_row [OF dist _ mem(2)] by auto
  have inA: "\<forall>r\<in>set (map ?uB (rows repo)). s_id r = s_id ?A \<longrightarrow> s_deployment_id r = s_deployment_id ?A"
    using same_id_same_row [OF dist _ mem(1)] ids by auto
  have flt: "filter (\<lambda>r. s_deployment_id r = Some d') (map ?uA (map ?uB (rows repo))) =
             map ?uA (map ?uB (filter (\<lambda>r. s_deployment_id r = Some d') (rows repo)))" for d'
    using filter_deployment_update [OF inA, of d'] filter_deployment_update [OF inB, of d']
    by simp
  have own: "get_steps_by_deployment_id (snd (process_step self stp now repo)) d = [?A, ?B, C]"
    using flt [of d] steps ids by (simp add: ps get_steps_by_deployment_id_def)
  have other: "get_steps_by_deployment_id (snd (process_step self stp now repo)) d' =
               get_steps_by_deployment_id repo d'" if "d' \<noteq> d" for d'
  proof -
    have "map ?uA (map ?uB xs) = xs" if "\<forall>r\<in>set xs. r \<in> set (rows repo) \<and> s_deployment_id r = Some d'" for xs
      using that
    proof (induction xs)
      case Nil
      then show ?case by simp
    next
      case (Cons x xs)
      have "s_id x \<noteq> s_id A" "s_id x \<noteq> s_id B"
        using Cons.prems same_id_same_row [OF dist _ mem(1), of x] same_id_same_row [OF dist _ mem(2), of x]
          dep \<open>d' \<noteq> d\<close>
        by fastforce+
      with Cons show ?case by simp
    qed
    then show ?thesis
      using flt [of d'] by (simp add: ps get_steps_by_deployment_id_def)
  qed
  show ?thesis using ps own other rep by simp
qed

theorem process_step_advances_witness:
  "fst (process_step
          \<lparr>d_id = Some 1, d_service_id = 5, d_origin = ''github'', d_user = ''ci'',
             d_started = Some 3, d_finished = None, d_context = []\<rparr>
          ((Step ''A'')\<lparr>s_state := ''success'', s_message := ''built''\<rparr>) 9
          \<lparr>rows = [(Step ''A'')\<lparr>s_id := Some 10, s_state := ''running'', s_deployment_id := Some 1\<rparr>,
                    (Step ''B'')\<lparr>s_id := Some 11, s_deployment_id := Some 1\<rparr>,
                    (Step ''C'')\<lparr>s_id := Some 12, s_deployment_id := Some 1\<rparr>],
             next_id = 13\<rparr>) =
     Inr ((Step ''A'')\<lparr>s_id := Some 10, s_finished := Some 9, s_state := ''success'',
            s_deployment_id := Some 1, s_message := ''built''\<rparr>) \<and>
   get_steps_by_deployment_id
     (snd (process_step
          \<lparr>d_id = Some 1, d_service_id = 5, d_origin = ''github'', d_user = ''ci'',
             d_started = Some 3, d_finished = None, d_context = []\<rparr>
          ((Step ''A'')\<lparr>s_state := ''success'', s_message := ''built''\<rparr>) 9
          \<lparr>rows = [(Step ''A'')\<lparr>s_id := Some 10, s_state := ''running'', s_deployment_id := Some 1\<rparr>,
                    (Step ''B'')\<lparr>s_id := Some 11, s_deployment_id := Some 1\<rparr>,
                    (Step ''C'')\<lparr>s_id := Some 12, s_deployment_id := Some 1\<rparr>],
             next_id = 13\<rparr>)) 1 =
     [(Step ''A'')\<lparr>s_id := Some 10, s_finished := Some 9, s_state := ''success'',
         s_deployment_id := Some 1, s_message := ''built''\<rparr>,
      (Step ''B'')\<lparr>s_id := Some 11, s_state := ''running'', s_deployment_id := Some 1\<rparr>,
      (Step ''C'')\<lparr>s_id := Some 12, s_deployment_id := Some 1\<rparr>]"
proof -
  let ?A = "(Step ''A'')\<lparr>s_id := Some 10, s_state := ''running'', s_deployment_id := Some 1\<rparr>"
  let ?B = "(Step ''B'')\<lparr>s_id := Some 11, s_deployment_id := Some 1\<rparr>"
  let ?C = "(Step ''C'')\<lparr>s_id := Some 12, s_deployment_id := Some 1\<rparr>"
  let ?repo = "\<lparr>rows = [?A, ?B, ?C], next_id = 13\<rparr>"
  have steps: "get_steps_by_deployment_id ?repo 1 = [?A, ?B, ?C]"
    by (simp add: get_steps_by_deployment_id_def Step_def)
  have dist: "distinct (map s_id (rows ?repo))"
    by (simp add: Step_def)
  show ?thesis
    using process_step_advances [where d = 1 and now = 9 and repo = ?repo
        and self = "\<lparr>d_id = Some 1, d_service_id = 5, d_origin = ''github'', d_user = ''ci'',
             d_started = Some 3, d_finished = None, d_context = []\<rparr>"
        and stp = "(Step ''A'')\<lparr>s_state := ''success'', s_message := ''built''\<rparr>",
        OF _ _ _ dist steps]
    by (simp add: Step_def)
qed

text \<open>
  C2: a pending step is promoted only when the report matched a running step and its state
  is not failure. Whenever the report's state is failure, or no running step of the
  deployment has the report's name, the repository after the call is the one before it
  with the matched step's row overwritten (the first pending step of that name, when only
  a pending step matches), or with the new row appended: every other row, pending ones
  included, is as it was.
\<close>

theorem process_step_no_promotion:
  assumes "d_started self \<noteq> None" "d_finished self = None" "d_id self = Some d"
    and "s_state stp = ''failure'' \<or>
         (\<forall>s\<in>set (get_steps_by_deployment_id repo d). s_state s = ''running'' \<longrightarrow> s_name s \<noteq> s_name stp)"
  shows "process_step self stp now repo =
     (case spec_known_step (get_steps_by_deployment_id repo d) stp of
        None \<Rightarrow>
          (Inr (stp\<lparr>s_id := Some (next_id repo), s_finished := Some now, s_deployment_id := Some d\<rparr>),
           repo\<lparr>rows := rows repo @ [stp\<lparr>s_id := Some (next_id repo), s_finished := Some now, s_deployment_id := Some d\<rparr>],
                next_id := next_id repo + 1\<rparr>)
      | Some k \<Rightarrow>
          (Inr (k\<lparr>s_started := s_started stp, s_finished := Some now,
                  s_state := s_state stp, s_message := s_message stp\<rparr>),
           repo\<lparr>rows := map (\<lambda>r. if s_id r = s_id k
                                   then k\<lparr>s_started := s_started stp, s_finished := Some now,
                                          s_state := s_state stp, s_message := s_message stp\<rparr>
                                   else r) (rows repo)\<rparr>))"
proof (cases "spec_known_step (get_steps_by_deployment_id repo d) stp")
  case None
  then show ?thesis using process_step_None [OF assms(1-3) None] by simp
next
  case (Some k)
  have "snd (find_known_step (get_steps_by_deployment_id repo d) stp repo) = repo"
    using assms(4) by (rule snd_find_known_step_unchanged)
  then show ?thesis using process_step_Some [OF assms(1-3) Some] Some
    by (simp add: update_step_def)
qed

theorem process_step_no_promotion_witness:
  "process_step
     \<lparr>d_id = Some 1, d_service_id = 5, d_origin = ''github'', d_user = ''ci'',
        d_started = Some 3, d_finished = None, d_context = []\<rparr>
     ((Step ''A'')\<lparr>s_state := ''failure''\<rparr>) 9
     \<lparr>rows = [(Step ''A'')\<lparr>s_id := Some 10, s_state := ''running'', s_deployment_id := Some 1\<rparr>,
               (Step ''B'')\<lparr>s_id := Some 11, s_deployment_id := Some 1\<rparr>],
        next_id = 12\<rparr> =
     (Inr ((Step ''A'')\<lparr>s_id := Some 10, s_finished := Some 9, s_state := ''failure'',
             s_deployment_id := Some 1\<rparr>),
      \<lparr>rows = [(Step ''A'')\<lparr>s_id := Some 10, s_finished := Some 9, s_state := ''failure'',
                  s_deployment_id := Some 1\<rparr>,
               (Step ''B'')\<lparr>s_id := Some 11, s_deployment_id := Some 1\<rparr>],
         next_id = 12\<rparr>) \<and>
   process_step
     \<lparr>d_id = Some 1, d_service_id = 5, d_origin = ''github'', d_user = ''ci'',
        d_started = Some 3, d_finished = None, d_context = []\<rparr>
     ((Step ''A'')\<lparr>s_state := ''success''\<rparr>) 9
     \<lparr>rows = [(Step ''A'')\<lparr>s_id := Some 10, s_deployment_id := Some 1\<rparr>,
               (Step ''B'')\<lparr>s_id := Some 11, s_deployment_id := Some 1\<rparr>],
        next_id = 12\<rparr> =
     (Inr ((Step ''A'')\<lparr>s_id := Some 10, s_finished := Some 9, s_state := ''success'',
             s_deployment_id := Some 1\<rparr>),
      \<lparr>rows = [(Step ''A'')\<lparr>s_id := Some 10, s_finished := Some 9, s_state := ''success'',
                  s_deployment_id := Some 1\<rparr>,
               (Step ''B'')\<lparr>s_id := Some 11, s_deployment_id := Some 1\<rparr>],
         next_id = 12\<rparr>)"
proof -
  let ?self = "\<lparr>d_id = Some 1, d_service_id = 5, d_origin = ''github'', d_user = ''ci'',
        d_started = Some 3, d_finished = None, d_context = []\<rparr>"
  let ?B = "(Step ''B'')\<lparr>s_id := Some 11, s_deployment_id := Some 1\<rparr>"
  let ?run = "\<lparr>rows = [(Step ''A'')\<lparr>s_id := Some 10, s_state := ''running'', s_deployment_id := Some 1\<rparr>, ?B],
        next_id = 12\<rparr>"
  let ?pend = "\<lparr>rows = [(Step ''A'')\<lparr>s_id := Some 10, s_deployment_id := Some 1\<rparr>, ?B],
        next_id = 12\<rparr>"
  have failure: "s_state ((Step ''A'')\<lparr>s_state := ''failure''\<rparr>) = ''failure'' \<or>
      (\<forall>s\<in>set (get_steps_by_deployment_id ?run 1).
          s_state s = ''running'' \<longrightarrow> s_name s \<noteq> s_name ((Step ''A'')\<lparr>s_state := ''failure''\<rparr>))"
    by simp
  have pending_only: "s_state ((Step ''A'')\<lparr>s_state := ''success''\<rparr>) = ''failure'' \<or>
      (\<forall>s\<in>set (get_steps_by_deployment_id ?pend 1).
          s_state s = ''running'' \<longrightarrow> s_name s \<noteq> s_name ((Step ''A'')\<lparr>s_state := ''success''\<rparr>))"
    by (simp add: get_steps_by_deployment_id_def Step_def)
  show ?thesis
    using process_step_no_promotion [where self = ?self and d = 1 and now = 9, OF _ _ _ failure]
      process_step_no_promotion [where self = ?self and d = 1 and now = 9, OF _ _ _ pending_only]
    by (simp add: get_steps_by_deployment_id_def spec_known_step_def Step_def)
qed

text \<open>
  C3: on a started, unfinished deployment, a report whose name is that of no running or
  pending step of the deployment creates a new row: the report itself (its name, state,
  started and message), attached to the deployment, stamped finished = now, stored last
  under the next primary key, and returned.
\<close>

theorem process_step_creates_unknown:
  assumes "d_started self \<noteq> None" "d_finished self = None" "d_id self = Some d"
    and "\<forall>s\<in>set (get_steps_by_deployment_id repo d).
           (s_state s = ''running'' \<or> s_state s = ''pending'') \<longrightarrow> s_name s \<noteq> s_name stp"
  shows "process_step self stp now repo =
           (Inr (stp\<lparr>s_id := Some (next_id repo), s_finished := Some now, s_deployment_id := Some d\<rparr>),
            repo\<lparr>rows := rows repo @ [stp\<lparr>s_id := Some (next_id repo), s_finished := Some now, s_deployment_id := Some d\<rparr>],
                 next_id := next_id repo + 1\<rparr>)"
proof -
  let ?steps = "get_steps_by_deployment_id repo d"
  have k: "fst (find_known_step ?steps stp repo) = None"
    using assms(4) by (auto simp: fst_find_known_step spec_known_step_def find_None_iff)
  have r: "snd (find_known_step ?steps stp repo) = repo"
    using assms(4) by (intro snd_find_known_step_unchanged) auto
  obtain ks r1 where e: "find_known_step ?steps stp repo = (ks, r1)" by (cases "find_known_step ?steps stp repo")
  with k r have "ks = None" "r1 = repo" by auto
  with e assms(1-3) show ?thesis
    by (auto simp: process_step_def add_step_def Let_def)
qed

theorem process_step_creates_unknown_witness:
  "process_step
     \<lparr>d_id = Some 1, d_service_id = 5, d_origin = ''github'', d_user = ''ci'',
        d_started = Some 3, d_finished = None, d_context = []\<rparr>
     ((Step ''X'')\<lparr>s_state := ''running''\<rparr>) 9 \<lparr>rows = [], next_id = 1\<rparr> =
     (Inr ((Step ''X'')\<lparr>s_id := Some 1, s_finished := Some 9, s_state := ''running'',
             s_deployment_id := Some 1\<rparr>),
      \<lparr>rows = [(Step ''X'')\<lparr>s_id := Some 1, s_finished := Some 9, s_state := ''running'',
                  s_deployment_id := Some 1\<rparr>],
         next_id = 2\<rparr>)"
proof -
  have none: "\<forall>s\<in>set (get_steps_by_deployment_id \<lparr>rows = [], next_id = 1\<rparr> 1).
      (s_state s = ''running'' \<or> s_state s = ''pending'') \<longrightarrow>
      s_name s \<noteq> s_name ((Step ''X'')\<lparr>s_state := ''running''\<rparr>)"
    by (simp add: get_steps_by_deployment_id_def)
  show ?thesis
    using process_step_creates_unknown [where d = 1 and now = 9
        and self = "\<lparr>d_id = Some 1, d_service_id = 5, d_origin = ''github'', d_user = ''ci'',
             d_started = Some 3, d_finished = None, d_context = []\<rparr>", OF _ _ _ none]
    by (simp add: Step_def)
qed

text \<open>
  C10: when the report is matched to a persisted step \<open>k\<close> (running or pending) and primary
  keys are unique, the returned step is \<open>k\<close> with only started, finished, state and message
  overwritten (id, name and deployment id are \<open>k\<close>'s); the row of \<open>k\<close> becomes that step;
  and every other row is unchanged, except at most the deployment's first pending step,
  whose state alone becomes running. No row is added or removed.
\<close>

theorem process_step_frame:
  assumes ok: "d_started self \<noteq> None" "d_finished self = None" "d_id self = Some d"
    and dist: "distinct (map s_id (rows repo))"
    and known: "spec_known_step (get_steps_by_deployment_id repo d) stp = Some k"
  shows "fst (process_step self stp now repo) =
           Inr (k\<lparr>s_started := s_started stp, s_finished := Some now,
                  s_state := s_state stp, s_message := s_message stp\<rparr>) \<and>
         length (rows (snd (process_step self stp now repo))) = length (rows repo) \<and>
         next_id (snd (process_step self stp now repo)) = next_id repo \<and>
         (\<forall>i<length (rows repo).
            (rows repo ! i = k \<longrightarrow>
               rows (snd (process_step self stp now repo)) ! i =
                 k\<lparr>s_started := s_started stp, s_finished := Some now,
                   s_state := s_state stp, s_message := s_message stp\<rparr>) \<and>
            (rows repo ! i \<noteq> k \<longrightarrow>
               rows (snd (process_step self stp now repo)) ! i = rows repo ! i \<or>
               (filter (\<lambda>s. s_state s = ''pending'') (get_steps_by_deployment_id repo d) \<noteq> [] \<and>
                rows repo ! i = hd (filter (\<lambda>s. s_state s = ''pending'') (get_steps_by_deployment_id repo d)) \<and>
                rows (snd (process_step self stp now repo)) ! i = (rows repo ! i)\<lparr>s_state := ''running''\<rparr>)))"
proof -
  let ?steps = "get_steps_by_deployment_id repo d"
  let ?k = "k\<lparr>s_started := s_started stp, s_finished := Some now,
               s_state := s_state stp, s_message := s_message stp\<rparr>"
  let ?uK = "\<lambda>r. if s_id r = s_id k then ?k else r"
  have sub: "set ?steps \<subseteq> set (rows repo)"
    by (auto simp: get_steps_by_deployment_id_def)
  have kmem: "k \<in> set (rows repo)"
    using spec_known_step_mem [OF known] sub by auto
  have ps: "process_step self stp now repo =
              (Inr ?k, snd (update_step ?k (snd (find_known_step ?steps stp repo))))"
    by (rule process_step_Some [OF ok known])
  from snd_find_known_step_cases [of ?steps stp repo]
  show ?thesis
  proof
    assume same: "snd (find_known_step ?steps stp repo) = repo"
    have "rows (snd (process_step self stp now repo)) = map ?uK (rows repo)"
      by (simp add: ps same update_step_def)
    moreover have "s_id (rows repo ! i) = s_id k \<longleftrightarrow> rows repo ! i = k" if "i < length (rows repo)" for i
      using same_id_same_row [OF dist _ kmem, of "rows repo ! i"] that by auto
    ultimately show ?thesis
      by (simp add: ps same update_step_def)
  next
    assume "\<exists>k' p ps. List.find (\<lambda>r. s_name r = s_name stp) (filter (\<lambda>s. s_state s = ''running'') ?steps) = Some k' \<and>
      filter (\<lambda>s. s_state s = ''pending'') ?steps = p # ps \<and>
      snd (find_known_step ?steps stp repo) = snd (update_step (p\<lparr>s_state := ''running''\<rparr>) repo)"
    then obtain k' p ps' where
      fk: "List.find (\<lambda>r. s_name r = s_name stp) (filter (\<lambda>s. s_state s = ''running'') ?steps) = Some k'"
      and pend: "filter (\<lambda>s. s_state s = ''pending'') ?steps = p # ps'"
      and prom: "snd (find_known_step ?steps stp repo) = snd (update_step (p\<lparr>s_state := ''running''\<rparr>) repo)"
      by blast
    have "k' = k"
      using known fk by (simp add: spec_known_step_def find_append_cases)
    then have krun: "s_state k = ''running''"
      using find_Some_mem [OF fk] by auto
    have "p \<in> set (filter (\<lambda>s. s_state s = ''pending'') ?steps)"
      using pend by simp
    then have pmem: "p \<in> set (rows repo)" and ppend: "s_state p = ''pending''"
      using sub by auto
    have "p \<noteq> k" using krun ppend by auto
    then have idne: "s_id p \<noteq> s_id k"
      using same_id_same_row [OF dist pmem kmem] by auto
    let ?uP = "\<lambda>r. if s_id r = s_id p then p\<lparr>s_state := ''running''\<rparr> else r"
    have rows': "rows (snd (process_step self stp now repo)) = map ?uK (map ?uP (rows repo))"
      by (simp add: ps prom update_step_def)
    have kk: "s_id (rows repo ! i) = s_id k \<longleftrightarrow> rows repo ! i = k" if "i < length (rows repo)" for i
      using same_id_same_row [OF dist _ kmem, of "rows repo ! i"] that by auto
    have pp: "s_id (rows repo ! i) = s_id p \<longleftrightarrow> rows repo ! i = p" if "i < length (rows repo)" for i
      using same_id_same_row [OF dist _ pmem, of "rows repo ! i"] that by auto
    show ?thesis
      using idne kk pp pend by (auto simp: rows' ps prom update_step_def)
  qed
qed

theorem process_step_frame_witness:
  "fst (process_step
          \<lparr>d_id = Some 1, d_service_id = 5, d_origin = ''github'', d_user = ''ci'',
             d_started = Some 3, d_finished = None, d_context = []\<rparr>
          ((Step ''A'')\<lparr>s_state := ''success'', s_message := ''built''\<rparr>) 9
          \<lparr>rows = [(Step ''A'')\<lparr>s_id := Some 10, s_state := ''running'', s_deployment_id := Some 1\<rparr>,
                    (Step ''Z'')\<lparr>s_id := Some 11, s_deployment_id := Some 2\<rparr>],
             next_id = 12\<rparr>) =
     Inr ((Step ''A'')\<lparr>s_id := Some 10, s_finished := Some 9, s_state := ''success'',
            s_deployment_id := Some 1, s_message := ''built''\<rparr>) \<and>
   length (rows (snd (process_step
          \<lparr>d_id = Some 1, d_service_id = 5, d_origin = ''github'', d_user = ''ci'',
             d_started = Some 3, d_finished = None, d_context = []\<rparr>
          ((Step ''A'')\<lparr>s_state := ''success'', s_message := ''built''\<rparr>) 9
          \<lparr>rows = [(Step ''A'')\<lparr>s_id := Some 10, s_state := ''running'', s_deployment_id := Some 1\<rparr>,
                    (Step ''Z'')\<lparr>s_id := Some 11, s_deployment_id := Some 2\<rparr>],
             next_id = 12\<rparr>))) = 2"
proof -
  let ?A = "(Step ''A'')\<lparr>s_id := Some 10, s_state := ''running'', s_deployment_id := Some 1\<rparr>"
  let ?repo = "\<lparr>rows = [?A, (Step ''Z'')\<lparr>s_id := Some 11, s_deployment_id := Some 2\<rparr>], next_id = 12\<rparr>"
  let ?stp = "(Step ''A'')\<lparr>s_state := ''success'', s_message := ''built''\<rparr>"
  have known: "spec_known_step (get_steps_by_deployment_id ?repo 1) ?stp = Some ?A"
    by (simp add: get_steps_by_deployment_id_def spec_known_step_def Step_def)
  have dist: "distinct (map s_id (rows ?repo))"
    by (simp add: Step_def)
  show ?thesis
    using process_step_frame [where d = 1 and now = 9
        and self = "\<lparr>d_id = Some 1, d_service_id = 5, d_origin = ''github'', d_user = ''ci'',
             d_started = Some 3, d_finished = None, d_context = []\<rparr>", OF _ _ _ dist known]
    by (simp add: Step_def)
qed

section \<open>Properties of the tokens\<close>

lemma valid_claims_unregistered:
  assumes "valid_claims claims"
  shows "map_of claims ''iat'' = None" "map_of claims ''nbf'' = None"
    "map_of claims ''aud'' = None" "map_of claims ''sub'' = None"
    "map_of claims ''jti'' = None" "map_of claims ''at_hash'' = None"
proof -
  have "set (map fst claims) \<inter> {''iat'', ''nbf'', ''aud'', ''sub'', ''jti'', ''at_hash''} = {}"
    using assms by (simp add: valid_claims_def)
  then have "\<forall>k \<in> {''iat'', ''nbf'', ''aud'', ''sub'', ''jti'', ''at_hash''}. k \<notin> fst ` set claims"
    by auto
  then show "map_of claims ''iat'' = None" "map_of claims ''nbf'' = None"
    "map_of claims ''aud'' = None" "map_of claims ''sub'' = None"
    "map_of claims ''jti'' = None" "map_of claims ''at_hash'' = None"
    by (simp_all add: map_of_eq_None_iff)
qed

lemma validate_claims_issued:
  assumes "valid_claims claims"
  shows "validate_claims (AList.update ''exp'' (JInt e) claims) now =
           (if e < now then Some ExpiredSignatureError else None)"
  using valid_claims_unregistered [OF assms]
  by (simp add: validate_claims_def validate_iat_def validate_nbf_def validate_exp_def
      validate_aud_def validate_sub_def validate_jti_def validate_at_hash_def
      claim_int_def update_conv')

lemma create_access_token_returns:
  assumes "datetime_min \<le> t0 + (case ttl of None \<Rightarrow> 15 * 60 * 1000000 | Some delta \<Rightarrow> delta)"
    and "t0 + (case ttl of None \<Rightarrow> 15 * 60 * 1000000 | Some delta \<Rightarrow> delta) \<le> datetime_max"
    and "ttl \<noteq> Some 0"
  shows "create_access_token cfg claims ttl t0 =
           Inr (Signed (AList.update ''exp''
                  (JInt (timegm (t0 + (case ttl of None \<Rightarrow> 15 * 60 * 1000000 | Some delta \<Rightarrow> delta))))
                  claims) (secret_key cfg) (token_sign_algorithm cfg))"
  using assms
  by (auto simp: create_access_token_def jwt_encode_def Let_def split: option.splits)

lemma create_access_token_issued:
  assumes "create_access_token cfg claims ttl t0 = Inr tok" "ttl \<noteq> Some 0"
  shows "tok = Signed (AList.update ''exp''
                  (JInt (timegm (t0 + (case ttl of None \<Rightarrow> 15 * 60 * 1000000 | Some delta \<Rightarrow> delta))))
                  claims) (secret_key cfg) (token_sign_algorithm cfg)"
  using assms
  by (auto simp: create_access_token_def jwt_encode_def Let_def split: option.splits if_splits)

lemma timegm_mono: "a \<le> b \<Longrightarrow> timegm a \<le> timegm b"
  by (simp add: timegm_def zdiv_mono1)

lemma timegm_next_second: "a + 1000000 \<le> b \<Longrightarrow> timegm a < timegm b"
proof -
  assume "a + 1000000 \<le> b"
  then have "timegm (a + 1000000) \<le> timegm b"
    by (rule timegm_mono)
  moreover have "timegm (a + 1000000) = timegm a + 1"
    by (simp add: timegm_def)
  ultimately show ?thesis by simp
qed

text \<open>
  C5, as amended: for every valid claims map containing a type field and every nonzero
  ttl (or none, which stands for 15 minutes), a token that \<^verbatim>\<open>create_access_token\<close>
  issues at time \<open>t0\<close> expires at \<open>t0 + ttl\<close>. Resolved no later than that, it yields the
  input claims with the key \<^verbatim>\<open>exp\<close> set to the whole seconds of the expiry, every
  other key as in the input (so the type is the input's); resolved a second or more after
  the expiry, it fails with the expiry error, an InvalidToken. In between, within the
  second of the expiry, the token still resolves: the library compares whole seconds.
\<close>

theorem token_round_trip:
  assumes "valid_claims claims" and "ttl \<noteq> Some 0"
    and "create_access_token cfg claims ttl t0 = Inr tok"
  shows "(let expire = t0 + (case ttl of None \<Rightarrow> 15 * 60 * 1000000 | Some delta \<Rightarrow> delta)
          in token_to_payload cfg tok now =
               (if timegm expire < timegm now then Inl ExpiredSignatureError
                else Inr (AList.update ''exp'' (JInt (timegm expire)) claims)) \<and>
             map_of (AList.update ''exp'' (JInt (timegm expire)) claims) =
               (map_of claims)(''exp'' \<mapsto> JInt (timegm expire)) \<and>
             (now \<le> expire \<longrightarrow>
                token_to_payload cfg tok now =
                  Inr (AList.update ''exp'' (JInt (timegm expire)) claims)) \<and>
             (expire + 1000000 \<le> now \<longrightarrow>
                token_to_payload cfg tok now = Inl ExpiredSignatureError \<and>
                InvalidToken ExpiredSignatureError))"
proof -
  let ?expire = "t0 + (case ttl of None \<Rightarrow> 15 * 60 * 1000000 | Some delta \<Rightarrow> delta)"
  let ?payload = "AList.update ''exp'' (JInt (timegm ?expire)) claims"
  have tok: "tok = Signed ?payload (secret_key cfg) (token_sign_algorithm cfg)"
    using create_access_token_issued [OF assms(3) assms(2)] .
  have resolved: "token_to_payload cfg tok now =
      (if timegm ?expire < timegm now then Inl ExpiredSignatureError else Inr ?payload)"
    by (simp add: tok token_to_payload_def jwt_decode_def validate_claims_issued [OF assms(1)])
  have early: "\<not> timegm ?expire < timegm now" if "now \<le> ?expire"
    using timegm_mono [OF that] by simp
  have late: "timegm ?expire < timegm now" if "?expire + 1000000 \<le> now"
    using timegm_next_second [OF that] .
  have "map_of ?payload = (map_of claims)(''exp'' \<mapsto> JInt (timegm ?expire))"
    by (rule update_conv')
  then show ?thesis
    using resolved early late by (simp add: Let_def InvalidToken_def)
qed

theorem token_round_trip_witness:
  "create_access_token \<lparr>secret_key = ''s3cret'', token_sign_algorithm = ''HS256''\<rparr>
     [(''type'', JStr ''user''), (''user'', JStr ''alice'')] (Some 300000000) 1000000000 =
     Inr (Signed [(''type'', JStr ''user''), (''user'', JStr ''alice''), (''exp'', JInt 1300)]
            ''s3cret'' ''HS256'') \<and>
   token_to_payload \<lparr>secret_key = ''s3cret'', token_sign_algorithm = ''HS256''\<rparr>
     (Signed [(''type'', JStr ''user''), (''user'', JStr ''alice''), (''exp'', JInt 1300)]
        ''s3cret'' ''HS256'') 1300000000 =
     Inr [(''type'', JStr ''user''), (''user'', JStr ''alice''), (''exp'', JInt 1300)] \<and>
   token_to_payload \<lparr>secret_key = ''s3cret'', token_sign_algorithm = ''HS256''\<rparr>
     (Signed [(''type'', JStr ''user''), (''user'', JStr ''alice''), (''exp'', JInt 1300)]
        ''s3cret'' ''HS256'') 1301000000 =
     Inl ExpiredSignatureError"
proof -
  let ?cfg = "\<lparr>secret_key = ''s3cret'', token_sign_algorithm = ''HS256''\<rparr>"
  let ?claims = "[(''type'', JStr ''user''), (''user'', JStr ''alice'')]"
  let ?tok = "Signed [(''type'', JStr ''user''), (''user'', JStr ''alice''), (''exp'', JInt 1300)]
            ''s3cret'' ''HS256''"
  have valid: "valid_claims ?claims"
    by (simp add: valid_claims_def)
  have ttl: "Some (300000000 :: int) \<noteq> Some 0"
    by simp
  have issued: "create_access_token ?cfg ?claims (Some 300000000) 1000000000 = Inr ?tok"
    by (simp add: create_access_token_def jwt_encode_def timegm_def datetime_min_def
        datetime_max_def)
  show ?thesis
    using issued
      token_round_trip [OF valid ttl issued, where now = 1300000000]
      token_round_trip [OF valid ttl issued, where now = 1301000000]
    by (simp add: Let_def timegm_def)
qed

text \<open>
  The claim C5 as stated fails three times. The resolved claims are not the input: they
  carry \<^verbatim>\<open>exp\<close>, which the input lacks. With a ttl of zero the token is still resolved
  after the issue time. And a token whose expiry falls within a second is still resolved
  later in that second, after issue time plus ttl.
\<close>

theorem token_round_trip_counterexample:
  "create_access_token \<lparr>secret_key = ''s3cret'', token_sign_algorithm = ''HS256''\<rparr>
     [(''type'', JStr ''user''), (''user'', JStr ''alice'')] (Some 300000000) 1000000000 =
     Inr (Signed [(''type'', JStr ''user''), (''user'', JStr ''alice''), (''exp'', JInt 1300)]
            ''s3cret'' ''HS256'') \<and>
   token_to_payload \<lparr>secret_key = ''s3cret'', token_sign_algorithm = ''HS256''\<rparr>
     (Signed [(''type'', JStr ''user''), (''user'', JStr ''alice''), (''exp'', JInt 1300)]
        ''s3cret'' ''HS256'') 1000000000 =
     Inr [(''type'', JStr ''user''), (''user'', JStr ''alice''), (''exp'', JInt 1300)] \<and>
   map_of [(''type'', JStr ''user''), (''user'', JStr ''alice''), (''exp'', JInt 1300)] ''exp'' \<noteq>
   map_of [(''type'', JStr ''user''), (''user'', JStr ''alice'')] ''exp'' \<and>
   create_access_token \<lparr>secret_key = ''s3cret'', token_sign_algorithm = ''HS256''\<rparr>
     [(''type'', JStr ''user''), (''user'', JStr ''alice'')] (Some 0) 1000000000 =
     Inr (Signed [(''type'', JStr ''user''), (''user'', JStr ''alice''), (''exp'', JInt 1900)]
            ''s3cret'' ''HS256'') \<and>
   token_to_payload \<lparr>secret_key = ''s3cret'', token_sign_algorithm = ''HS256''\<rparr>
     (Signed [(''type'', JStr ''user''), (''user'', JStr ''alice''), (''exp'', JInt 1900)]
        ''s3cret'' ''HS256'') 1001000000 =
     Inr [(''type'', JStr ''user''), (''user'', JStr ''alice''), (''exp'', JInt 1900)] \<and>
   create_access_token \<lparr>secret_key = ''s3cret'', token_sign_algorithm = ''HS256''\<rparr>
     [(''type'', JStr ''user''), (''user'', JStr ''alice'')] (Some 1200000) 1000000000 =
     Inr (Signed [(''type'', JStr ''user''), (''user'', JStr ''alice''), (''exp'', JInt 1001)]
            ''s3cret'' ''HS256'') \<and>
   token_to_payload \<lparr>secret_key = ''s3cret'', token_sign_algorithm = ''HS256''\<rparr>
     (Signed [(''type'', JStr ''user''), (''user'', JStr ''alice''), (''exp'', JInt 1001)]
        ''s3cret'' ''HS256'') 1001700000 =
     Inr [(''type'', JStr ''user''), (''user'', JStr ''alice''), (''exp'', JInt 1001)]"
  by (simp add: token_to_payload_def create_access_token_def jwt_encode_def jwt_decode_def
      validate_claims_def validate_iat_def validate_nbf_def validate_exp_def
      validate_aud_def validate_sub_def validate_jti_def validate_at_hash_def
      claim_int_def timegm_def datetime_min_def datetime_max_def)

text \<open>
  C6: when a token resolves to claims whose type is not the one a function expects, the
  function fails with the \<^verbatim>\<open>ValueError\<close> of its type check, a WrongTokenType and no
  InvalidToken, and has made no repository call. This holds for each of the three
  functions, hence for every pair of distinct types.
\<close>

theorem wrong_token_type:
  assumes "token_to_payload cfg tok now = Inr payload"
  shows "(map_of payload ''type'' \<noteq> Some (JStr ''user'') \<longrightarrow>
            user_from_token cfg users_get tok now = (Inl (ValueError ''not an access token''), [])) \<and>
         (map_of payload ''type'' \<noteq> Some (JStr ''service'') \<longrightarrow>
            service_from_token cfg services_get_by_name tok now =
              (Inl (ValueError ''not a service token''), [])) \<and>
         (map_of payload ''type'' \<noteq> Some (JStr ''deployment'') \<longrightarrow>
            deployment_from_token cfg deployments_get tok now =
              (Inl (ValueError ''not a deployment token''), [])) \<and>
         (\<forall>e \<in> {ValueError ''not an access token'', ValueError ''not a service token'',
                 ValueError ''not a deployment token''}. WrongTokenType e \<and> \<not> InvalidToken e)"
  using assms
  by (simp add: user_from_token_def service_from_token_def deployment_from_token_def
      WrongTokenType_def InvalidToken_def)

theorem wrong_token_type_witness:
  "user_from_token \<lparr>secret_key = ''s3cret'', token_sign_algorithm = ''HS256''\<rparr>
     (\<lambda>n. Inl NotFound :: error + unit)
     (Signed [(''type'', JStr ''deployment''), (''deployment'', JInt 7), (''exp'', JInt 2800)]
        ''s3cret'' ''HS256'') 1500000000 =
     (Inl (ValueError ''not an access token''), []) \<and>
   service_from_token \<lparr>secret_key = ''s3cret'', token_sign_algorithm = ''HS256''\<rparr>
     (\<lambda>n. Inl NotFound :: error + unit)
     (Signed [(''type'', JStr ''deployment''), (''deployment'', JInt 7), (''exp'', JInt 2800)]
        ''s3cret'' ''HS256'') 1500000000 =
     (Inl (ValueError ''not a service token''), []) \<and>
   WrongTokenType (ValueError ''not a service token'') \<and>
   \<not> InvalidToken (ValueError ''not a service token'')"
proof -
  let ?cfg = "\<lparr>secret_key = ''s3cret'', token_sign_algorithm = ''HS256''\<rparr>"
  let ?tok = "Signed [(''type'', JStr ''deployment''), (''deployment'', JInt 7), (''exp'', JInt 2800)]
        ''s3cret'' ''HS256''"
  have resolved: "token_to_payload ?cfg ?tok 1500000000 =
      Inr [(''type'', JStr ''deployment''), (''deployment'', JInt 7), (''exp'', JInt 2800)]"
    by (simp add: token_to_payload_def jwt_decode_def validate_claims_def validate_iat_def
        validate_nbf_def validate_exp_def validate_aud_def validate_sub_def validate_jti_def
        validate_at_hash_def claim_int_def timegm_def)
  show ?thesis
    using wrong_token_type [OF resolved, where users_get = "\<lambda>n. Inl NotFound :: error + unit"
        and services_get_by_name = "\<lambda>n. Inl NotFound :: error + unit"]
    by simp
qed

section \<open>Properties of \<^verbatim>\<open>sync_services\<close>\<close>

lemma touch_same_data:
  assumes "lookup (svc_name s) = Some i" "svc_data (ts ! i) = svc_data s"
  shows "touch lookup s ts = ts"
proof -
  have "(ts ! i)\<lparr>svc_data := svc_data s\<rparr> = ts ! i"
    using assms(2) [symmetric] by simp
  then show ?thesis using assms(1) by (simp add: touch_def)
qed

lemma fst_sync_loop:
  "fst (sync_loop lookup src ts upd) = fold (touch lookup) src ts"
proof (induction src arbitrary: ts upd)
  case Nil
  then show ?case by simp
next
  case (Cons s src)
  show ?case
  proof (cases "lookup (svc_name s)")
    case None
    then show ?thesis using Cons by (simp add: touch_def)
  next
    case (Some i)
    show ?thesis
    proof (cases "svc_data (ts ! i) = svc_data s")
      case True
      then show ?thesis using Some Cons touch_same_data [of lookup s i ts] by simp
    next
      case False
      then show ?thesis using Some Cons by (simp add: touch_def)
    qed
  qed
qed

lemma length_fold_touch: "length (fold (touch lookup) src ts) = length ts"
  by (induction src arbitrary: ts) (auto simp: touch_def split: option.splits)

lemma fold_touch_untouched:
  "\<forall>s\<in>set src. lookup (svc_name s) \<noteq> Some i \<Longrightarrow> fold (touch lookup) src ts ! i = ts ! i"
proof (induction src arbitrary: ts)
  case Nil
  then show ?case by simp
next
  case (Cons s src)
  then have "touch lookup s ts ! i = ts ! i"
    by (auto simp: touch_def split: option.splits)
  with Cons show ?case by simp
qed

lemma map_name_update:
  "map svc_name (ts[i := (ts ! i)\<lparr>svc_data := d\<rparr>]) = map svc_name ts"
proof (rule nth_equalityI)
  show "length (map svc_name (ts[i := (ts ! i)\<lparr>svc_data := d\<rparr>])) = length (map svc_name ts)"
    by simp
next
  fix j
  assume "j < length (map svc_name (ts[i := (ts ! i)\<lparr>svc_data := d\<rparr>]))"
  then show "map svc_name (ts[i := (ts ! i)\<lparr>svc_data := d\<rparr>]) ! j = map svc_name ts ! j"
    by (cases "j = i") simp_all
qed

lemma map_name_fold_touch:
  "map svc_name (fold (touch lookup) src ts) = map svc_name ts"
proof (induction src arbitrary: ts)
  case Nil
  then show ?case by simp
next
  case (Cons s src)
  have "map svc_name (touch lookup s ts) = map svc_name ts"
    by (simp add: touch_def map_name_update split: option.splits)
  with Cons show ?case by simp
qed

lemma filter_list_update_out:
  assumes "i < length ts" "\<not> P (ts ! i)" "\<not> P x"
  shows "filter P (ts[i := x]) = filter P ts"
  using assms
proof (induction ts arbitrary: i)
  case Nil
  then show ?case by simp
next
  case (Cons t ts)
  then show ?case by (cases i) auto
qed

lemma target_name_lookup_Some:
  assumes "target_name_lookup target n = Some i"
  shows "i < length target \<and> svc_name (target ! i) = n"
proof -
  have "(n, i) \<in> set (zip (map svc_name target) [0..<length target])"
    using map_of_SomeD [OF assms [unfolded target_name_lookup_def]] by simp
  then show ?thesis
    by (auto simp: set_zip)
qed

lemma target_name_lookup_None:
  "target_name_lookup target n = None \<longleftrightarrow> n \<notin> set (map svc_name target)"
proof -
  have "map fst (rev (zip (map svc_name target) [0..<length target])) = rev (map svc_name target)"
    by (simp add: rev_map [symmetric] del: rev_map)
  then have "dom (target_name_lookup target) = set (map svc_name target)"
    unfolding target_name_lookup_def dom_map_of_conv_image_fst
    by (metis list.set_map set_rev)
  then show ?thesis by (auto simp: domIff)
qed

lemma change_cong_update:
  assumes "lookup (svc_name s') \<noteq> Some i"
  shows "change lookup (ts[i := x]) s' = change lookup ts s'"
  using assms by (auto simp: change_def split: option.splits)

lemma sync_loop_entries:
  assumes "distinct (map svc_name src)"
    and inj: "\<forall>n m i. lookup n = Some i \<longrightarrow> lookup m = Some i \<longrightarrow> n = m"
    and bound: "\<forall>n i. lookup n = Some i \<longrightarrow> i < length ts"
  shows "\<exists>R. snd (sync_loop lookup src ts upd) = upd @ R \<and>
           map (deref (fold (touch lookup) src ts)) R = concat (map (change lookup ts) src)"
  using assms(1) bound
proof (induction src arbitrary: ts upd)
  case Nil
  then show ?case by simp
next
  case (Cons s src)
  have dist: "distinct (map svc_name src)" and fresh: "svc_name s \<notin> svc_name ` set src"
    using Cons.prems(1) by auto
  show ?case
  proof (cases "lookup (svc_name s)")
    case None
    obtain R where R: "snd (sync_loop lookup src ts (upd @ [Source s])) = (upd @ [Source s]) @ R"
      "map (deref (fold (touch lookup) src ts)) R = concat (map (change lookup ts) src)"
      using Cons.IH [where ts = ts and upd = "upd @ [Source s]", OF dist Cons.prems(2)] by blast
    have t: "touch lookup s ts = ts" and c: "change lookup ts s = [s]"
      using None by (simp_all add: touch_def change_def)
    show ?thesis
      using None R t c by (intro exI [of _ "Source s # R"]) simp
  next
    case (Some i)
    have other: "lookup (svc_name s') \<noteq> Some i" if "s' \<in> set src" for s'
      using inj Some fresh that by (metis imageI)
    have i: "i < length ts" using Cons.prems(2) Some by blast
    show ?thesis
    proof (cases "svc_data (ts ! i) = svc_data s")
      case True
      obtain R where R: "snd (sync_loop lookup src ts upd) = upd @ R"
        "map (deref (fold (touch lookup) src ts)) R = concat (map (change lookup ts) src)"
        using Cons.IH [where ts = ts and upd = upd, OF dist Cons.prems(2)] by blast
      have c: "change lookup ts s = []"
        using Some True by (simp add: change_def)
      show ?thesis
        using Some True R c touch_same_data [of lookup s i ts]
        by (intro exI [of _ R]) simp
    next
      case False
      let ?x = "(ts ! i)\<lparr>svc_data := svc_data s\<rparr>"
      let ?ts = "ts[i := ?x]"
      have b: "\<forall>n j. lookup n = Some j \<longrightarrow> j < length ?ts"
        using Cons.prems(2) by simp
      obtain R where R: "snd (sync_loop lookup src ?ts (upd @ [Target i])) = (upd @ [Target i]) @ R"
        "map (deref (fold (touch lookup) src ?ts)) R = concat (map (change lookup ?ts) src)"
        using Cons.IH [where ts = ?ts and upd = "upd @ [Target i]", OF dist b] by blast
      have t: "touch lookup s ts = ?ts"
        using Some by (simp add: touch_def)
      have "fold (touch lookup) src ?ts ! i = ?ts ! i"
        using other by (intro fold_touch_untouched) auto
      then have here: "fold (touch lookup) src ?ts ! i = ?x"
        using i by simp
      have ceq: "concat (map (change lookup ?ts) src) = concat (map (change lookup ts) src)"
        using other by (intro arg_cong [where f = concat] map_cong refl change_cong_update) auto
      have c: "change lookup ts s = [?x]"
        using Some False by (simp add: change_def)
      have T: "fold (touch lookup) (s # src) ts = fold (touch lookup) src ?ts"
        using t by simp
      have "map (deref (fold (touch lookup) src ?ts)) (Target i # R) =
              ?x # map (deref (fold (touch lookup) src ?ts)) R"
        using here by simp
      also have "\<dots> = ?x # concat (map (change lookup ?ts) src)"
        by (simp only: R(2))
      also have "\<dots> = ?x # concat (map (change lookup ts) src)"
        by (simp only: ceq)
      also have "\<dots> = concat (map (change lookup ts) (s # src))"
        by (simp add: c)
      finally have "map (deref (fold (touch lookup) (s # src) ts)) (Target i # R) =
          concat (map (change lookup ts) (s # src))"
        by (simp only: T)
      moreover have "snd (sync_loop lookup (s # src) ts upd) = upd @ (Target i # R)"
        using Some False R(1) by simp
      ultimately show ?thesis by blast
    qed
  qed
qed

lemma filter_fold_touch:
  assumes "\<forall>s\<in>set src. svc_name s \<in> S"
    and "\<forall>n i. lookup n = Some i \<longrightarrow> i < length ts \<and> svc_name (ts ! i) = n"
  shows "filter (\<lambda>t. svc_name t \<notin> S) (fold (touch lookup) src ts) = filter (\<lambda>t. svc_name t \<notin> S) ts"
  using assms
proof (induction src arbitrary: ts)
  case Nil
  then show ?case by simp
next
  case (Cons s src)
  have names: "map svc_name (touch lookup s ts) = map svc_name ts"
    by (simp add: touch_def map_name_update split: option.splits)
  have len: "length (touch lookup s ts) = length ts"
    using arg_cong [OF names, of length] by simp
  have inv: "\<forall>n i. lookup n = Some i \<longrightarrow>
      i < length (touch lookup s ts) \<and> svc_name (touch lookup s ts ! i) = n"
  proof (intro allI impI)
    fix n i
    assume l: "lookup n = Some i"
    then have i: "i < length ts" and n: "svc_name (ts ! i) = n"
      using Cons.prems(2) by auto
    have "map svc_name (touch lookup s ts) ! i = map svc_name ts ! i"
      by (simp only: names)
    then show "i < length (touch lookup s ts) \<and> svc_name (touch lookup s ts ! i) = n"
      using i n len by simp
  qed
  have step: "filter (\<lambda>t. svc_name t \<notin> S) (touch lookup s ts) = filter (\<lambda>t. svc_name t \<notin> S) ts"
  proof (cases "lookup (svc_name s)")
    case None
    then show ?thesis by (simp add: touch_def)
  next
    case (Some i)
    then have "i < length ts" "svc_name (ts ! i) = svc_name s"
      using Cons.prems(2) by auto
    moreover have "svc_name s \<in> S" using Cons.prems(1) by simp
    ultimately show ?thesis
      using Some by (simp add: touch_def filter_list_update_out)
  qed
  have "filter (\<lambda>t. svc_name t \<notin> S) (fold (touch lookup) src (touch lookup s ts)) =
        filter (\<lambda>t. svc_name t \<notin> S) (touch lookup s ts)"
    using Cons.IH [OF _ inv] Cons.prems(1) by simp
  then show ?case using step by simp
qed

lemma find_distinct_names:
  assumes "distinct (map svc_name target)" "i < length target"
  shows "List.find (\<lambda>t. svc_name t = svc_name (target ! i)) target = Some (target ! i)"
proof -
  have "\<not> svc_name (target ! j) = svc_name (target ! i)" if "j < i" for j
  proof
    assume "svc_name (target ! j) = svc_name (target ! i)"
    then have "map svc_name target ! j = map svc_name target ! i"
      using that assms(2) by simp
    moreover have "j < length (map svc_name target)" "i < length (map svc_name target)"
      using that assms(2) by simp_all
    ultimately have "j = i"
      using nth_eq_iff_index_eq [OF assms(1)] by blast
    then show False using that by simp
  qed
  then show ?thesis
    using assms(2) by (auto simp: find_Some_iff)
qed

lemma change_is_spec:
  assumes "distinct (map svc_name target)"
  shows "change (target_name_lookup target) target s =
     (case List.find (\<lambda>t. svc_name t = svc_name s) target of
        None \<Rightarrow> [s]
      | Some t \<Rightarrow> if svc_data t \<noteq> svc_data s then [t\<lparr>svc_data := svc_data s\<rparr>] else [])"
proof (cases "target_name_lookup target (svc_name s)")
  case None
  then have "List.find (\<lambda>t. svc_name t = svc_name s) target = None"
    unfolding target_name_lookup_None find_None_iff by (metis imageI list.set_map)
  then show ?thesis using None by (simp add: change_def)
next
  case (Some i)
  then have "i < length target" "svc_name (target ! i) = svc_name s"
    using target_name_lookup_Some by blast+
  then have "List.find (\<lambda>t. svc_name t = svc_name s) target = Some (target ! i)"
    using find_distinct_names [OF assms, of i] by simp
  then show ?thesis using Some by (simp add: change_def)
qed

text \<open>
  C7: for source and target lists in which names are unique, the first list returned is,
  in source order, every source service whose name is absent from the target (unchanged)
  and, for every source service whose name is in the target with data that differ by
  value, that target with its id and name kept and its data overwritten with the source's;
  the second list is every target whose name is absent from the source, unchanged and in
  target order.
\<close>

theorem sync_services_reconciles:
  assumes "distinct (map svc_name source)" "distinct (map svc_name target)"
  shows "sync_services source target = (spec_updated source target, spec_deleted source target)"
proof -
  let ?lookup = "target_name_lookup target"
  let ?T = "fold (touch ?lookup) source target"
  have inj: "\<forall>n m i. ?lookup n = Some i \<longrightarrow> ?lookup m = Some i \<longrightarrow> n = m"
    using target_name_lookup_Some by blast
  have bound: "\<forall>n i. ?lookup n = Some i \<longrightarrow> i < length target"
    using target_name_lookup_Some by blast
  obtain R where R: "snd (sync_loop ?lookup source target []) = [] @ R"
    "map (deref ?T) R = concat (map (change ?lookup target) source)"
    using sync_loop_entries [where upd = "[]", OF assms(1) inj bound] by blast
  have loop: "sync_loop ?lookup source target [] = (?T, R)"
    using R(1) fst_sync_loop [of ?lookup source target "[]"]
    by (cases "sync_loop ?lookup source target []") simp
  have "change ?lookup target =
      (\<lambda>s. case List.find (\<lambda>t. svc_name t = svc_name s) target of
              None \<Rightarrow> [s]
            | Some t \<Rightarrow> if svc_data t \<noteq> svc_data s then [t\<lparr>svc_data := svc_data s\<rparr>] else [])"
    by (rule ext) (rule change_is_spec [OF assms(2)])
  then have upd: "map (deref ?T) R = spec_updated source target"
    using R(2) by (simp only: spec_updated_def)
  have del: "filter (\<lambda>t. svc_name t \<notin> set (map svc_name source)) ?T = spec_deleted source target"
    unfolding spec_deleted_def
    by (rule filter_fold_touch) (use target_name_lookup_Some in auto)
  show ?thesis
    using loop upd del by (simp add: sync_services_def)
qed
theorem sync_services_reconciles_witness:
  "sync_services
     [\<lparr>svc_id = None, svc_name = ''a'', svc_data = [(''x'', JInt 1)]\<rparr>]
     [\<lparr>svc_id = Some 4, svc_name = ''a'', svc_data = [(''x'', JInt 2)]\<rparr>] =
     ([\<lparr>svc_id = Some 4, svc_name = ''a'', svc_data = [(''x'', JInt 1)]\<rparr>], []) \<and>
   sync_services []
     [\<lparr>svc_id = Some 4, svc_name = ''a'', svc_data = [(''x'', JInt 2)]\<rparr>] =
     ([], [\<lparr>svc_id = Some 4, svc_name = ''a'', svc_data = [(''x'', JInt 2)]\<rparr>])"
proof -
  have one: "distinct (map svc_name [\<lparr>svc_id = None, svc_name = ''a'', svc_data = [(''x'', JInt 1)]\<rparr>])"
    and other: "distinct (map svc_name [\<lparr>svc_id = Some 4, svc_name = ''a'', svc_data = [(''x'', JInt 2)]\<rparr>])"
    and none: "distinct (map svc_name ([] :: (string \<times> jval) list service list))"
    by simp_all
  show ?thesis
    using sync_services_reconciles [OF one other] sync_services_reconciles [OF none other]
    by (simp add: spec_updated_def spec_deleted_def)
qed

section \<open>Properties of the execution pipeline\<close>

lemma process_deploy_event_retries:
  assumes "net (posts d) = ConnectError" "net (posts d + 1) = ConnectError"
    "net (posts d + 2) = Response resp" "r_json resp = Some body"
  shows "process_deploy_event net event d =
           (Inr (), d\<lparr>posts := posts d + 3, sleeps := sleeps d + 2,
                       delivered := delivered d @ [event]\<rparr>)"
  using assms by (simp add: process_deploy_event_def)

text \<open>
  C8, where the code departs from it: when three POSTs in a row meet a connection failure,
  \<^verbatim>\<open>process_deploy_event\<close> has sent exactly three and delivered nothing, as the claim
  says, but then raises \<^verbatim>\<open>UnboundLocalError\<close>, and \<^verbatim>\<open>run_deploy\<close>, which catches
  \<^verbatim>\<open>JSONDecodeError\<close> only, ends with that error: the lines after the event are never
  read. (Two failures and then a response give three POSTs and one delivered event:
  \<open>process_deploy_event_retries\<close>.)
\<close>

theorem three_connect_errors_escape:
  assumes "net (posts d) = ConnectError" "net (posts d + 1) = ConnectError"
    "net (posts d + 2) = ConnectError"
    and "length decoded \<noteq> 0" "json_loads decoded = Some event"
  shows "process_deploy_event net event d =
           (Inl UnboundLocalError, d\<lparr>posts := posts d + 3, sleeps := sleeps d + 3\<rparr>) \<and>
         run_deploy json_loads net (decoded # lines) d =
           (Inl UnboundLocalError, d\<lparr>posts := posts d + 3, sleeps := sleeps d + 3\<rparr>)"
proof -
  have "process_deploy_event net event d =
      (Inl UnboundLocalError, d\<lparr>posts := posts d + 3, sleeps := sleeps d + 3\<rparr>)"
    using assms(1-3) by (simp add: process_deploy_event_def)
  then show ?thesis
    using assms(4,5) by simp
qed

theorem three_connect_errors_escape_witness:
  "process_deploy_event
     (\<lambda>n. if n < 3 then ConnectError
           else Response \<lparr>r_status_code = 200, r_json = Some JNone\<rparr>)
     (JStr ''build running'') \<lparr>posts = 0, sleeps = 0, delivered = []\<rparr> =
     (Inl UnboundLocalError, \<lparr>posts = 3, sleeps = 3, delivered = []\<rparr>) \<and>
   run_deploy (\<lambda>line. Some (JStr line))
     (\<lambda>n. if n < 3 then ConnectError
           else Response \<lparr>r_status_code = 200, r_json = Some JNone\<rparr>)
     [''build running'', ''build success'']
     \<lparr>posts = 0, sleeps = 0, delivered = []\<rparr> =
     (Inl UnboundLocalError, \<lparr>posts = 3, sleeps = 3, delivered = []\<rparr>)"
  using three_connect_errors_escape [where d = "\<lparr>posts = 0, sleeps = 0, delivered = []\<rparr>"
      and net = "\<lambda>n. if n < 3 then ConnectError
                     else Response \<lparr>r_status_code = 200, r_json = Some JNone\<rparr>"
      and json_loads = "\<lambda>line. Some (JStr line)"
      and decoded = "''build running''"
      and event = "JStr ''build running''"
      and lines = "[''build success'']"]
  by simp

section \<open>Properties of the steps to do\<close>

text \<open>
  C9, where the code departs from it: when the service's last successful deployment has
  recorded steps, \<^verbatim>\<open>get_steps_to_do_from_service\<close> returns those rows as recorded, with
  their recorded state, id and timestamps, and not reset to pending. The sibling
  \<^verbatim>\<open>ServicePydantic.get_steps\<close> returns their names, in order, each in a fresh pending
  step, as the claim says.
\<close>

theorem get_steps_to_do_keeps_recorded:
  assumes "svc_id service = Some sid"
    and "get_last_successful_deployment_id uow sid = Some did"
    and "get_steps_from_deployment uow did = recorded" "recorded \<noteq> []"
  shows "get_steps_to_do_from_service service (Some uow) = Inr recorded \<and>
         get_steps StepBase_kwargs uow service = Inr (map (\<lambda>past. Step (s_name past)) recorded)"
  using assms
  by (simp add: get_steps_to_do_from_service_def get_steps_from_last_deployment_def get_steps_def)

theorem get_steps_to_do_keeps_recorded_witness:
  "get_steps_to_do_from_service \<lparr>svc_id = Some 1, svc_name = ''web'', svc_data = []\<rparr>
     (Some \<lparr>get_last_successful_deployment_id = (\<lambda>i. if i = 1 then Some 7 else None),
            get_steps_from_deployment = (\<lambda>i. if i = 7
               then [\<lparr>s_id = Some 3, s_name = ''build'', s_started = Some 10, s_finished = Some 20,
                      s_state = ''success'', s_deployment_id = Some 7, s_message = ''ok''\<rparr>]
               else [])\<rparr>) =
     Inr [\<lparr>s_id = Some 3, s_name = ''build'', s_started = Some 10, s_finished = Some 20,
            s_state = ''success'', s_deployment_id = Some 7, s_message = ''ok''\<rparr>] \<and>
   get_steps Step_kwargs
     \<lparr>get_last_successful_deployment_id = (\<lambda>i. if i = 1 then Some 7 else None),
        get_steps_from_deployment = (\<lambda>i. if i = 7
           then [\<lparr>s_id = Some 3, s_name = ''build'', s_started = Some 10, s_finished = Some 20,
                  s_state = ''success'', s_deployment_id = Some 7, s_message = ''ok''\<rparr>]
           else [])\<rparr>
     \<lparr>svc_id = Some 1, svc_name = ''web'', svc_data = []\<rparr> =
     Inr [Step ''build'']"
  using get_steps_to_do_keeps_recorded [where sid = 1 and did = 7
      and service = "\<lparr>svc_id = Some 1, svc_name = ''web'', svc_data = []\<rparr>"
      and uow = "\<lparr>get_last_successful_deployment_id = (\<lambda>i. if i = 1 then Some 7 else None),
        get_steps_from_deployment = (\<lambda>i. if i = 7
           then [\<lparr>s_id = Some 3, s_name = ''build'', s_started = Some 10, s_finished = Some 20,
                  s_state = ''success'', s_deployment_id = Some 7, s_message = ''ok''\<rparr>]
           else [])\<rparr>"
      and StepBase_kwargs = Step_kwargs
      and recorded = "[\<lparr>s_id = Some 3, s_name = ''build'', s_started = Some 10, s_finished = Some 20,
                  s_state = ''success'', s_deployment_id = Some 7, s_message = ''ok''\<rparr>]"]
  by simp

end
